theory Spec2Isabelle
  imports Main
begin

section \<open>Unicode text\<close>

text \<open>
  A Python \<open>str\<close> is a sequence of Unicode code points, so a string of the pipeline is a
  list of natural numbers. \<open>u\<close> writes an ASCII literal as such a list.
\<close>

type_synonym ustring = "nat list"

definition u :: "string \<Rightarrow> ustring" where
  "u s = map of_char s"

definition is_ascii :: "ustring \<Rightarrow> bool" where
  "is_ascii s = list_all (\<lambda>c. c < 128) s"

text \<open>
  Whitespace as \<open>str.strip()\<close> and the regular expression class \<open>\s\<close> see it (both use
  the interpreter's one whitespace table): U+0009..U+000D, U+001C..U+0020, U+0085, U+00A0,
  U+1680, U+2000..U+200A, U+2028, U+2029, U+202F, U+205F, U+3000.
\<close>

definition is_space :: "nat \<Rightarrow> bool" where
  "is_space c = ((9 \<le> c \<and> c \<le> 13) \<or> (28 \<le> c \<and> c \<le> 32) \<or> c = 133 \<or> c = 160
     \<or> c = 5760 \<or> (8192 \<le> c \<and> c \<le> 8202) \<or> c = 8232 \<or> c = 8233 \<or> c = 8239
     \<or> c = 8287 \<or> c = 12288)"

text \<open>
  The pipeline calls into Unicode tables that are not part of the repository:
  \<open>unicodedata.normalize('NFKD', _)\<close>, \<open>emoji.replace_emoji(_, replace='')\<close>, the
  alphanumeric table behind \<open>\w\<close> and \<open>str.upper\<close>. They are parameters of the model.
  Only their behaviour on ASCII is fixed here: NFKD and the emoji package leave a pure
  ASCII string as it is, \<open>\w\<close> on ASCII is \<open>[A-Za-z0-9_]\<close>, and \<open>upper\<close> on ASCII
  shifts \<open>a..z\<close> to \<open>A..Z\<close>.
\<close>

record unicode_lib =
  nfkd_ext :: "ustring \<Rightarrow> ustring"
  emoji_ext :: "ustring \<Rightarrow> ustring"
  alnum_ext :: "nat \<Rightarrow> bool"
  upper_ext :: "nat \<Rightarrow> ustring"

definition nfkd :: "unicode_lib \<Rightarrow> ustring \<Rightarrow> ustring" where
  "nfkd L s = (if is_ascii s then s else nfkd_ext L s)"

definition replace_emoji :: "unicode_lib \<Rightarrow> ustring \<Rightarrow> ustring" where
  "replace_emoji L s = (if is_ascii s then s else emoji_ext L s)"

definition is_word :: "unicode_lib \<Rightarrow> nat \<Rightarrow> bool" where
  "is_word L c = (if c < 128
     then (48 \<le> c \<and> c \<le> 57) \<or> (65 \<le> c \<and> c \<le> 90) \<or> (97 \<le> c \<and> c \<le> 122) \<or> c = 95
     else alnum_ext L c)"

definition char_upper :: "unicode_lib \<Rightarrow> nat \<Rightarrow> ustring" where
  "char_upper L c = (if c < 128 then (if 97 \<le> c \<and> c \<le> 122 then [c - 32] else [c])
     else upper_ext L c)"

text \<open>A library that knows nothing beyond ASCII, for evaluating the model on ASCII text.\<close>

definition ascii_lib :: unicode_lib where
  "ascii_lib = \<lparr>nfkd_ext = (\<lambda>s. s), emoji_ext = (\<lambda>s. s), alnum_ext = (\<lambda>c. False),
     upper_ext = (\<lambda>c. [c])\<rparr>"

text \<open>
  The same library with U+1F600..U+1F64F (the Emoticons block) known to the emoji package,
  each code point an emoji of its own.
\<close>

definition emoticon_lib :: unicode_lib where
  "emoticon_lib = ascii_lib\<lparr>emoji_ext := filter (\<lambda>c. \<not> (128512 \<le> c \<and> c \<le> 128591))\<rparr>"

section \<open>Whitespace: \<open>re.sub(r'\s+', ' ', text).strip()\<close>\<close>

text \<open>Every maximal run of whitespace becomes one U+0020.\<close>

function collapse_ws :: "ustring \<Rightarrow> ustring" where
  "collapse_ws [] = []"
| "collapse_ws (c # cs) =
     (if is_space c then 32 # collapse_ws (dropWhile is_space cs) else c # collapse_ws cs)"
  by pat_completeness auto
termination
  by (relation "measure length") (auto simp: length_dropWhile_le less_Suc_eq_le)

definition py_strip :: "ustring \<Rightarrow> ustring" where
  "py_strip s = rev (dropWhile is_space (rev (dropWhile is_space s)))"

definition normalize_ws :: "ustring \<Rightarrow> ustring" where
  "normalize_ws s = py_strip (collapse_ws s)"

section \<open>\<open>normalize_arabic\<close>\<close>

text \<open>
  \<open>self.arabic_normalizer\<close>: U+0625, U+0623, U+0622, U+0671 to U+0627 (bare alef);
  U+0649 to U+064A (ya); U+0629 to U+0647 (heh).
\<close>

definition arabic_normalizer :: "nat \<rightharpoonup> nat" where
  "arabic_normalizer = map_of
     [(1573, 1575), (1571, 1575), (1570, 1575), (1649, 1575), (1609, 1610), (1577, 1607)]"

text \<open>\<open>self.arabic_normalizer.get(c, c)\<close>\<close>

definition normalizer_get :: "nat \<Rightarrow> nat" where
  "normalizer_get c = (case arabic_normalizer c of None \<Rightarrow> c | Some d \<Rightarrow> d)"

text \<open>The class of \<open>re.sub\<close> in \<open>normalize_arabic\<close>: 1611 is U+064B, 1631 is U+065F.\<close>

definition is_tashkil :: "nat \<Rightarrow> bool" where
  "is_tashkil c = (1611 \<le> c \<and> c \<le> 1631)"

definition normalize_arabic :: "unicode_lib \<Rightarrow> ustring \<Rightarrow> ustring" where
  "normalize_arabic L text =
     filter (\<lambda>c. \<not> is_tashkil c) (map normalizer_get (nfkd L text))"

section \<open>\<open>clean_text\<close>\<close>

text \<open>
  \<open>clean_text\<close> accepts any object and turns a non-string into \<open>str(text)\<close>. The
  objects that reach it here are strings and \<open>None\<close> (its own rejected result), and
  \<open>str(None)\<close> is the four letters \<open>None\<close>.
\<close>

datatype pyobj = PyStr ustring | PyNone

fun py_str :: "pyobj \<Rightarrow> ustring" where
  "py_str (PyStr s) = s"
| "py_str PyNone = u ''None''"

text \<open>
  The punctuation kept by the two character classes. For \<open>'ar'\<close>:
  \<open>. , ! ?\<close> U+061B U+060C \<open>: ' " ( ) -\<close>; for every other language:
  \<open>. , ! ? ' " ( ) -\<close>.
\<close>

definition punct_ar :: "nat list" where
  "punct_ar = [46, 44, 33, 63, 1563, 1548, 58, 39, 34, 40, 41, 45]"

definition punct_other :: "nat list" where
  "punct_other = [46, 44, 33, 63, 39, 34, 40, 41, 45]"

text \<open>The characters the two classes keep; 1536 is U+0600, 1791 is U+06FF.\<close>

definition allowed_ar :: "unicode_lib \<Rightarrow> nat \<Rightarrow> bool" where
  "allowed_ar L c = (is_word L c \<or> is_space c \<or> (1536 \<le> c \<and> c \<le> 1791) \<or> List.member punct_ar c)"

definition allowed_other :: "unicode_lib \<Rightarrow> nat \<Rightarrow> bool" where
  "allowed_other L c = (is_word L c \<or> is_space c \<or> List.member punct_other c)"

text \<open>\<open>re.sub(r'[^...]', ' ', text)\<close>: each character outside the class becomes a space.\<close>

definition sub_disallowed :: "(nat \<Rightarrow> bool) \<Rightarrow> ustring \<Rightarrow> ustring" where
  "sub_disallowed allowed s = map (\<lambda>c. if allowed c then c else 32) s"

text \<open>The text \<open>clean_text\<close> has built when it reaches its \<open>return\<close>.\<close>

definition clean_transform :: "unicode_lib \<Rightarrow> pyobj \<Rightarrow> string \<Rightarrow> ustring" where
  "clean_transform L text lang =
     (let t1 = normalize_ws (py_str text);
          t2 = replace_emoji L t1
      in if lang = ''ar''
         then sub_disallowed (allowed_ar L) (normalize_arabic L t2)
         else sub_disallowed (allowed_other L) t2)"

text \<open>\<open>return text if text else None\<close>\<close>

definition clean_text :: "unicode_lib \<Rightarrow> pyobj \<Rightarrow> string \<Rightarrow> ustring option" where
  "clean_text L text lang =
     (let t = clean_transform L text lang in if t = [] then None else Some t)"

text \<open>The result of \<open>clean_text\<close> as the object a second call of it receives.\<close>

definition py_of_result :: "ustring option \<Rightarrow> pyobj" where
  "py_of_result r = (case r of None \<Rightarrow> PyNone | Some s \<Rightarrow> PyStr s)"

section \<open>Post-processing of the engine's output\<close>

datatype direction = AR_EN | EN_AR

text \<open>\<open>MODEL_CONFIGS[direction]['src_lang']\<close>\<close>

fun src_lang :: "direction \<Rightarrow> string" where
  "src_lang AR_EN = ''ar''"
| "src_lang EN_AR = ''en''"

text \<open>
  The exceptions of the model: indexing an empty string, and whatever the model engine
  raises, which is opaque here apart from an identifying number. What the engine raises
  is either an \<open>Exception\<close> (\<open>EngineError\<close>) or a \<open>BaseException\<close> that is not one
  (\<open>EngineInterrupt\<close>: \<open>KeyboardInterrupt\<close>, \<open>SystemExit\<close>). The handler of
  \<open>translate_text\<close> is \<open>except Exception\<close>, so it sees only the former.
\<close>

datatype exn = IndexError | EngineError nat | EngineInterrupt nat

fun is_exception :: "exn \<Rightarrow> bool" where
  "is_exception IndexError = True"
| "is_exception (EngineError n) = True"
| "is_exception (EngineInterrupt n) = False"

subsection \<open>\<open>re.sub(r'\b(a|an|the)\s+(a|an|the)\b', r'\1', text)\<close>\<close>

text \<open>
  The pattern carries no flag, so the three alternatives are matched as written, in lower
  case. Alternatives are tried in order and the first that lets the rest of the pattern
  match wins, which \<open>first_some\<close> expresses.
\<close>

definition articles :: "ustring list" where
  "articles = [u ''a'', u ''an'', u ''the'']"

fun strip_prefix :: "ustring \<Rightarrow> ustring \<Rightarrow> ustring option" where
  "strip_prefix [] s = Some s"
| "strip_prefix (a # as) [] = None"
| "strip_prefix (a # as) (c # cs) = (if a = c then strip_prefix as cs else None)"

fun first_some :: "('a \<Rightarrow> 'b option) \<Rightarrow> 'a list \<Rightarrow> 'b option" where
  "first_some f [] = None"
| "first_some f (x # xs) = (case f x of Some y \<Rightarrow> Some y | None \<Rightarrow> first_some f xs)"

text \<open>
  \<open>(a|an|the)\b\<close> at the head of \<open>s\<close>: an article followed by the end of the text or by a
  character that is not a word character. The result is what follows the article.
\<close>

definition second_article :: "unicode_lib \<Rightarrow> ustring \<Rightarrow> ustring option" where
  "second_article L s = first_some
     (\<lambda>a. case strip_prefix a s of
            None \<Rightarrow> None
          | Some r \<Rightarrow> (case r of [] \<Rightarrow> Some r
                       | c # cs \<Rightarrow> if is_word L c then None else Some r))
     articles"

text \<open>
  \<open>(a|an|the)\s+(a|an|the)\b\<close> at the head of \<open>s\<close>: the first article, then the longest
  run of whitespace (a shorter run would leave the second article starting on a
  whitespace character), then the second article. The result is group 1 and the text
  after the match.
\<close>

definition article_pair :: "unicode_lib \<Rightarrow> ustring \<Rightarrow> (ustring \<times> ustring) option" where
  "article_pair L s = first_some
     (\<lambda>a. case strip_prefix a s of
            None \<Rightarrow> None
          | Some r \<Rightarrow> (case r of [] \<Rightarrow> None
                       | c # cs \<Rightarrow> if is_space c
                           then map_option (Pair a) (second_article L (dropWhile is_space cs))
                           else None))
     articles"

lemma strip_prefix_length: "strip_prefix a s = Some r \<Longrightarrow> length s = length a + length r"
  by (induction a s rule: strip_prefix.induct) (auto split: if_splits)

lemma first_some_SomeD: "first_some f xs = Some y \<Longrightarrow> \<exists>x \<in> set xs. f x = Some y"
  by (induction xs) (auto split: option.splits)

lemma second_article_length:
  assumes "second_article L s = Some r"
  shows "length r \<le> length s"
proof -
  from assms obtain a where "(case strip_prefix a s of
            None \<Rightarrow> None
          | Some r \<Rightarrow> (case r of [] \<Rightarrow> Some r
                       | c # cs \<Rightarrow> if is_word L c then None else Some r)) = Some r"
    unfolding second_article_def by (blast dest: first_some_SomeD)
  then have "strip_prefix a s = Some r"
    by (auto split: option.splits list.splits if_splits)
  then show ?thesis by (auto dest: strip_prefix_length)
qed

lemma article_pair_length:
  assumes "article_pair L s = Some (a, r)"
  shows "length r < length s"
proof -
  from assms obtain a' where "(case strip_prefix a' s of
            None \<Rightarrow> None
          | Some r \<Rightarrow> (case r of [] \<Rightarrow> None
                       | c # cs \<Rightarrow> if is_space c
                           then map_option (Pair a') (second_article L (dropWhile is_space cs))
                           else None)) = Some (a, r)"
    unfolding article_pair_def by (blast dest: first_some_SomeD)
  then obtain c cs where s: "strip_prefix a' s = Some (c # cs)"
    and r: "second_article L (dropWhile is_space cs) = Some r"
    by (auto split: option.splits list.splits if_splits)
  have "length r \<le> length (dropWhile is_space cs)" using r by (rule second_article_length)
  also have "\<dots> \<le> length cs" by (rule length_dropWhile_le)
  also have "\<dots> < length s" using strip_prefix_length [OF s] by simp
  finally show ?thesis .
qed

text \<open>
  The scan of \<open>re.sub\<close>, left to right. \<open>pw\<close> tells whether the character before the
  current position is a word character: the leading \<open>\b\<close> holds exactly when it is not
  (the match starts with a letter). After a replacement the scan resumes behind the match,
  whose last character is a letter.
\<close>

function sub_articles :: "unicode_lib \<Rightarrow> bool \<Rightarrow> ustring \<Rightarrow> ustring" where
  "sub_articles L pw [] = []"
| "sub_articles L pw (c # cs) =
     (case (if pw then None else article_pair L (c # cs)) of
        Some (a, r) \<Rightarrow> a @ sub_articles L True r
      | None \<Rightarrow> c # sub_articles L (is_word L c) cs)"
  by pat_completeness auto
termination
  by (relation "measure (\<lambda>(L, pw, s). length s)")
    (auto dest: article_pair_length split: if_splits)

subsection \<open>\<open>re.sub(r'\s([...](?:\s|$))', r'\1', text)\<close>\<close>

text \<open>
  A match is a whitespace character, a punctuation mark of the class \<open>P\<close>, and then
  either one more whitespace character (which the match consumes, so the scan resumes
  behind it) or the end of the text. The replacement is group 1: the match without its
  first character.
\<close>

fun sub_space_punct :: "(nat \<Rightarrow> bool) \<Rightarrow> ustring \<Rightarrow> ustring" where
  "sub_space_punct P (a # b # c # cs) =
     (if is_space a \<and> P b \<and> is_space c then b # c # sub_space_punct P cs
      else a # sub_space_punct P (b # c # cs))"
| "sub_space_punct P [a, b] = (if is_space a \<and> P b then [b] else [a, b])"
| "sub_space_punct P [a] = [a]"
| "sub_space_punct P [] = []"

text \<open>The class \<open>[?.!,;]\<close> of the \<open>ar-en\<close> branch.\<close>

definition punct_en :: "nat \<Rightarrow> bool" where
  "punct_en c = List.member [63, 46, 33, 44, 59] c"

text \<open>The class of the \<open>en-ar\<close> branch: U+061F, U+060C, U+061B.\<close>

definition punct_arabic :: "nat \<Rightarrow> bool" where
  "punct_arabic c = List.member [1567, 1548, 1563] c"

text \<open>\<open>str.replace\<close> of one character by another.\<close>

definition replace_char :: "nat \<Rightarrow> nat \<Rightarrow> ustring \<Rightarrow> ustring" where
  "replace_char a b s = map (\<lambda>c. if c = a then b else c) s"

text \<open>
  The two branches of \<open>translate_text\<close> on \<open>self.direction\<close>. In the \<open>ar-en\<close> branch
  \<open>translated_text[0]\<close> raises on the empty string. In the other branch \<open>.\<close> becomes
  U+06D4 (1748), \<open>,\<close> becomes U+060C (1548), the double quote becomes U+00AB (171) and
  the apostrophe U+00BB (187).
\<close>

definition postprocess :: "unicode_lib \<Rightarrow> direction \<Rightarrow> ustring \<Rightarrow> exn + ustring" where
  "postprocess L d translated_text =
     (case d of
        AR_EN \<Rightarrow>
          (case translated_text of
             [] \<Rightarrow> Inl IndexError
           | c # cs \<Rightarrow>
               Inr (sub_space_punct punct_en (sub_articles L False (char_upper L c @ cs))))
      | EN_AR \<Rightarrow>
          Inr (sub_space_punct punct_arabic
                (replace_char 39 187 (replace_char 34 171
                  (replace_char 44 1548 (replace_char 46 1748 translated_text))))))"

text \<open>The \<open>translated\<close> field of the result: the post-processed text, stripped.\<close>

definition translated_field :: "unicode_lib \<Rightarrow> direction \<Rightarrow> ustring \<Rightarrow> exn + ustring" where
  "translated_field L d raw =
     (case postprocess L d raw of Inl e \<Rightarrow> Inl e | Inr t \<Rightarrow> Inr (py_strip t))"

section \<open>\<open>translate_text\<close>\<close>

text \<open>
  The model engine is the tokenizer and the model of the pipeline, both external. Each of
  its three calls may raise. The tokenizer is handed \<open>cleaned_text\<close> as it is, which may
  be \<open>None\<close>.
\<close>

type_synonym tokens = "nat list"

record model_engine =
  tokenizer :: "ustring option \<Rightarrow> exn + tokens"
  generate :: "tokens \<Rightarrow> exn + tokens"
  decode :: "tokens \<Rightarrow> exn + ustring"

datatype engine_call = Tokenize "ustring option" | Generate tokens | Decode tokens

record translation_result =
  original :: ustring
  cleaned :: "ustring option"
  translated :: ustring

text \<open>
  The pipeline instance: its direction, its cache, and two observations of its effects,
  the calls made to the engine and the errors written by \<open>log_step\<close>.
\<close>

record pipeline =
  direction :: direction
  translation_cache :: "ustring \<rightharpoonup> translation_result"
  calls :: "engine_call list"
  error_log :: "exn list"

definition new_pipeline :: "direction \<Rightarrow> pipeline" where
  "new_pipeline d = \<lparr>direction = d, translation_cache = Map.empty, calls = [], error_log = []\<rparr>"

text \<open>The body of the \<open>try\<close> block after the cache lookup has missed.\<close>

definition translate_miss ::
  "unicode_lib \<Rightarrow> model_engine \<Rightarrow> pipeline \<Rightarrow> ustring \<Rightarrow> (exn + translation_result) \<times> pipeline"
where
  "translate_miss L E p text =
     (let cleaned_text = clean_text L (PyStr text) (src_lang (direction p));
          p1 = p\<lparr>calls := calls p @ [Tokenize cleaned_text]\<rparr>
      in case tokenizer E cleaned_text of
           Inl e \<Rightarrow> (Inl e, p1)
         | Inr inputs \<Rightarrow>
             (let p2 = p1\<lparr>calls := calls p1 @ [Generate inputs]\<rparr>
              in case generate E inputs of
                   Inl e \<Rightarrow> (Inl e, p2)
                 | Inr out \<Rightarrow>
                     (let p3 = p2\<lparr>calls := calls p2 @ [Decode out]\<rparr>
                      in case decode E out of
                           Inl e \<Rightarrow> (Inl e, p3)
                         | Inr translated_text \<Rightarrow>
                             (case translated_field L (direction p) translated_text of
                                Inl e \<Rightarrow> (Inl e, p3)
                              | Inr t \<Rightarrow>
                                  (let result = \<lparr>original = text, cleaned = cleaned_text,
                                                 translated = t\<rparr>
                                   in (Inr result,
                                       p3\<lparr>translation_cache :=
                                            (translation_cache p3)(text \<mapsto> result)\<rparr>))))))"

text \<open>
  \<open>translate_text\<close>: a hit returns the stored result; on a miss an \<open>Exception\<close> of the
  body is logged and raised again, and any other exception passes through unlogged.
\<close>

definition translate_text ::
  "unicode_lib \<Rightarrow> model_engine \<Rightarrow> pipeline \<Rightarrow> ustring \<Rightarrow> (exn + translation_result) \<times> pipeline"
where
  "translate_text L E p text =
     (case translation_cache p text of
        Some r \<Rightarrow> (Inr r, p)
      | None \<Rightarrow>
          (case translate_miss L E p text of
             (Inl e, p') \<Rightarrow>
               (Inl e, if is_exception e then p'\<lparr>error_log := error_log p' @ [e]\<rparr> else p')
           | (Inr r, p') \<Rightarrow> (Inr r, p')))"

text \<open>
  Stub engines. \<open>echo_engine\<close> tokenizes a string to itself (and \<open>None\<close> to nothing) and
  decodes what it was given; \<open>const_engine raw\<close> answers \<open>raw\<close> whatever it is asked;
  \<open>strict_engine raw\<close> does the same but its tokenizer refuses \<open>None\<close>;
  \<open>interrupted_engine\<close> is interrupted in its tokenizer.
\<close>

definition echo_engine :: model_engine where
  "echo_engine = \<lparr>tokenizer = (\<lambda>t. Inr (case t of None \<Rightarrow> [] | Some s \<Rightarrow> s)),
     generate = Inr, decode = Inr\<rparr>"

definition const_engine :: "ustring \<Rightarrow> model_engine" where
  "const_engine raw = \<lparr>tokenizer = (\<lambda>t. Inr []), generate = Inr, decode = (\<lambda>t. Inr raw)\<rparr>"

definition strict_engine :: "ustring \<Rightarrow> model_engine" where
  "strict_engine raw = \<lparr>tokenizer = (\<lambda>t. case t of None \<Rightarrow> Inl (EngineError 0) | Some s \<Rightarrow> Inr s),
     generate = Inr, decode = (\<lambda>t. Inr raw)\<rparr>"

definition interrupted_engine :: model_engine where
  "interrupted_engine = \<lparr>tokenizer = (\<lambda>t. Inl (EngineInterrupt 0)), generate = Inr,
     decode = Inr\<rparr>"

section \<open>Notions used in the statements\<close>

text \<open>
  The shape of a text that whitespace normalisation leaves alone: every whitespace
  character in it is U+0020, and no two whitespace characters are neighbours.
\<close>

fun no_adjacent_spaces :: "ustring \<Rightarrow> bool" where
  "no_adjacent_spaces (a # b # cs) =
     (\<not> (is_space a \<and> is_space b) \<and> no_adjacent_spaces (b # cs))"
| "no_adjacent_spaces [a] = True"
| "no_adjacent_spaces [] = True"

definition spaces_are_32 :: "ustring \<Rightarrow> bool" where
  "spaces_are_32 s = list_all (\<lambda>c. is_space c \<longrightarrow> c = 32) s"

text \<open>The characters the class of \<open>clean_text\<close> keeps for the language \<open>lang\<close>.\<close>

definition allowed_for :: "unicode_lib \<Rightarrow> string \<Rightarrow> nat \<Rightarrow> bool" where
  "allowed_for L lang = (if lang = ''ar'' then allowed_ar L else allowed_other L)"

text \<open>
  The article pair in the spec's words: two of \<open>a\<close>, \<open>an\<close>, \<open>the\<close>, the second right
  after the first but for whitespace, the pair ending at a word boundary. \<open>s\<close> starts
  with such a pair, \<open>a1\<close> is its first article and \<open>r\<close> is what follows the pair.
\<close>

definition spec_article_pair :: "unicode_lib \<Rightarrow> ustring \<Rightarrow> ustring \<Rightarrow> ustring \<Rightarrow> bool" where
  "spec_article_pair L s a1 r =
     (\<exists>a2 w ws. a1 \<in> set articles \<and> a2 \<in> set articles \<and> is_space w \<and> list_all is_space ws
        \<and> (r = [] \<or> \<not> is_word L (hd r)) \<and> s = a1 @ w # ws @ a2 @ r)"

text \<open>
  The whitespace before punctuation in the spec's words: \<open>s\<close> starts with a whitespace
  character, then a mark of the class \<open>P\<close>, then whitespace or the end of the text.
\<close>

definition spec_space_punct :: "(nat \<Rightarrow> bool) \<Rightarrow> ustring \<Rightarrow> bool" where
  "spec_space_punct P s =
     (\<exists>a b cs. s = a # b # cs \<and> is_space a \<and> P b \<and> (cs = [] \<or> is_space (hd cs)))"

text \<open>The four replacements of the \<open>en-ar\<close> branch on one character.\<close>

definition en_ar_char :: "nat \<Rightarrow> nat" where
  "en_ar_char c = (if c = 46 then 1748 else if c = 44 then 1548 else if c = 34 then 171
     else if c = 39 then 187 else c)"

text \<open>The two examples of post-processing, as code points.\<close>

definition marhaban_raw :: ustring where
  "marhaban_raw = [1605, 1585, 1581, 1576, 1575, 32, 44, 32, 1603, 1610, 1601, 32,
     1581, 1575, 1604, 1603, 32, 46]"

definition marhaban_out :: ustring where
  "marhaban_out = [1605, 1585, 1581, 1576, 1575, 1548, 32, 1603, 1610, 1601, 32,
     1581, 1575, 1604, 1603, 32, 1748]"

definition marhaban_claimed :: ustring where
  "marhaban_claimed = [1605, 1585, 1581, 1576, 1575, 1548, 32, 1603, 1610, 1601, 32,
     1581, 1575, 1604, 1603, 1748]"

section \<open>Evaluation on concrete text\<close>

lemmas text_defs = u_def is_space_def is_word_def char_upper_def is_ascii_def
  nfkd_def replace_emoji_def py_strip_def normalize_ws_def
  normalize_arabic_def normalizer_get_def arabic_normalizer_def is_tashkil_def
  punct_ar_def punct_other_def allowed_ar_def allowed_other_def sub_disallowed_def
  clean_transform_def clean_text_def Let_def

lemmas post_defs = articles_def article_pair_def second_article_def punct_en_def
  punct_arabic_def replace_char_def postprocess_def translated_field_def

lemmas run_defs = translate_text_def translate_miss_def new_pipeline_def
  echo_engine_def const_engine_def strict_engine_def interrupted_engine_def

section \<open>Whitespace normalisation is idempotent\<close>

lemma is_space_32: "is_space 32"
  by (simp add: is_space_def)

lemma dropWhile_not_hd: "\<not> P (hd xs) \<Longrightarrow> dropWhile P xs = xs"
  by (cases xs) auto

lemma hd_collapse_ws: "s \<noteq> [] \<Longrightarrow> is_space (hd (collapse_ws s)) = is_space (hd s)"
  by (cases s) (auto simp: is_space_32)

lemma no_adjacent_Cons:
  "no_adjacent_spaces (a # s) = ((s = [] \<or> \<not> (is_space a \<and> is_space (hd s))) \<and> no_adjacent_spaces s)"
  by (cases s) auto

lemma collapse_ws_no_adjacent: "no_adjacent_spaces (collapse_ws s)"
proof (induction s rule: collapse_ws.induct)
  case 1
  show ?case by simp
next
  case (2 c cs)
  show ?case
  proof (cases "is_space c")
    case True
    let ?r = "dropWhile is_space cs"
    have "collapse_ws ?r = [] \<or> \<not> is_space (hd (collapse_ws ?r))"
    proof (cases "?r = []")
      case True
      show ?thesis unfolding True by simp
    next
      case False
      then have "\<not> is_space (hd ?r)" by (rule hd_dropWhile)
      with False show ?thesis by (simp add: hd_collapse_ws)
    qed
    with True 2 show ?thesis by (auto simp: no_adjacent_Cons)
  next
    case False
    with 2 show ?thesis by (auto simp: no_adjacent_Cons)
  qed
qed

lemma collapse_ws_spaces_32: "spaces_are_32 (collapse_ws s)"
  by (induction s rule: collapse_ws.induct) (auto simp: spaces_are_32_def)

lemma collapse_ws_fixed:
  "spaces_are_32 s \<Longrightarrow> no_adjacent_spaces s \<Longrightarrow> collapse_ws s = s"
proof (induction s)
  case Nil
  show ?case by simp
next
  case (Cons c cs)
  then have ih: "collapse_ws cs = cs"
    by (auto simp: spaces_are_32_def no_adjacent_Cons)
  show ?case
  proof (cases "is_space c")
    case True
    with Cons.prems have c: "c = 32" and "cs = [] \<or> \<not> is_space (hd cs)"
      by (auto simp: spaces_are_32_def no_adjacent_Cons)
    then have "dropWhile is_space cs = cs" by (cases cs) auto
    with True c ih show ?thesis by simp
  next
    case False
    with ih show ?thesis by simp
  qed
qed

lemma no_adjacent_dropWhile: "no_adjacent_spaces s \<Longrightarrow> no_adjacent_spaces (dropWhile P s)"
  by (induction s) (auto simp: no_adjacent_Cons)

lemma no_adjacent_prefix: "no_adjacent_spaces (xs @ ys) \<Longrightarrow> no_adjacent_spaces xs"
proof (induction xs)
  case Nil
  show ?case by simp
next
  case (Cons a xs)
  then show ?case by (cases xs) (auto simp: no_adjacent_Cons)
qed

lemma py_strip_prefix: "\<exists>r. dropWhile is_space s = py_strip s @ r"
proof -
  let ?t = "dropWhile is_space s"
  have "py_strip s @ rev (takeWhile is_space (rev ?t))
      = rev (takeWhile is_space (rev ?t) @ dropWhile is_space (rev ?t))"
    by (simp only: py_strip_def rev_append)
  also have "\<dots> = rev (rev ?t)" by (simp only: takeWhile_dropWhile_id)
  also have "\<dots> = ?t" by (simp only: rev_rev_ident)
  finally have "?t = py_strip s @ rev (takeWhile is_space (rev ?t))" by (rule sym)
  then show ?thesis ..
qed

lemma py_strip_no_adjacent: "no_adjacent_spaces s \<Longrightarrow> no_adjacent_spaces (py_strip s)"
proof -
  assume "no_adjacent_spaces s"
  then have "no_adjacent_spaces (dropWhile is_space s)" by (rule no_adjacent_dropWhile)
  moreover obtain r where "dropWhile is_space s = py_strip s @ r" using py_strip_prefix by blast
  ultimately show ?thesis by (auto dest: no_adjacent_prefix)
qed

lemma set_py_strip: "set (py_strip s) \<subseteq> set s"
proof -
  have "set (py_strip s) \<subseteq> set (dropWhile is_space s)"
    unfolding py_strip_def using set_dropWhileD by fastforce
  also have "\<dots> \<subseteq> set s" using set_dropWhileD by fastforce
  finally show ?thesis .
qed

lemma py_strip_spaces_32: "spaces_are_32 s \<Longrightarrow> spaces_are_32 (py_strip s)"
  using set_py_strip [of s] by (auto simp: spaces_are_32_def list_all_iff)

lemma py_strip_idem: "py_strip (py_strip s) = py_strip s"
proof -
  let ?t = "dropWhile is_space s"
  let ?u = "py_strip s"
  have ru: "rev ?u = dropWhile is_space (rev ?t)" by (simp add: py_strip_def)
  obtain r where t: "?t = ?u @ r" using py_strip_prefix by blast
  have "dropWhile is_space ?u = ?u"
  proof (cases "?u = []")
    case True
    then show ?thesis by simp
  next
    case False
    then have "hd ?u = hd ?t" using t by (metis hd_append2)
    moreover have "?t \<noteq> []" using False t by auto
    ultimately have "\<not> is_space (hd ?u)" using hd_dropWhile [of is_space s] by simp
    then show ?thesis by (rule dropWhile_not_hd)
  qed
  then have "py_strip ?u = rev (dropWhile is_space (rev ?u))" by (simp add: py_strip_def)
  also have "\<dots> = rev (dropWhile is_space (dropWhile is_space (rev ?t)))" by (simp only: ru)
  also have "\<dots> = rev (dropWhile is_space (rev ?t))" by (simp add: dropWhile_idem)
  also have "\<dots> = ?u" by (simp add: py_strip_def)
  finally show ?thesis .
qed

lemma normalize_ws_idem: "normalize_ws (normalize_ws s) = normalize_ws s"
proof -
  let ?u = "normalize_ws s"
  have "spaces_are_32 ?u" "no_adjacent_spaces ?u"
    unfolding normalize_ws_def
    by (simp_all add: py_strip_spaces_32 collapse_ws_spaces_32 py_strip_no_adjacent collapse_ws_no_adjacent)
  then have "collapse_ws ?u = ?u" by (rule collapse_ws_fixed)
  then have "normalize_ws ?u = py_strip ?u" by (simp add: normalize_ws_def)
  also have "\<dots> = ?u" by (simp add: normalize_ws_def py_strip_idem)
  finally show ?thesis .
qed

lemma set_collapse_ws: "set (collapse_ws s) \<subseteq> insert 32 (set s)"
proof (induction s rule: collapse_ws.induct)
  case 1
  show ?case by simp
next
  case (2 c cs)
  have "set (dropWhile is_space cs) \<subseteq> set cs" using set_dropWhileD by fastforce
  with 2 show ?case by auto
qed

lemma set_normalize_ws: "set (normalize_ws s) \<subseteq> insert 32 (set s)"
  unfolding normalize_ws_def using set_py_strip set_collapse_ws by blast

lemma sub_disallowed_id: "list_all allowed s \<Longrightarrow> sub_disallowed allowed s = s"
  by (induction s) (auto simp: sub_disallowed_def)

lemma allowed_32: "allowed_for L lang 32"
  by (simp add: allowed_for_def allowed_ar_def allowed_other_def is_space_32)

lemma clean_allowed:
  assumes al: "list_all (allowed_for L lang) x"
    and em: "replace_emoji L (normalize_ws x) = normalize_ws x"
    and na: "lang = ''ar'' \<longrightarrow> normalize_arabic L (normalize_ws x) = normalize_ws x"
  shows "clean_transform L (PyStr x) lang = normalize_ws x"
proof -
  have "list_all (allowed_for L lang) (normalize_ws x)"
    using al set_normalize_ws [of x] allowed_32 [of L lang]
    by (auto simp: list_all_iff)
  then have "sub_disallowed (allowed_for L lang) (normalize_ws x) = normalize_ws x"
    by (rule sub_disallowed_id)
  with em na show ?thesis
    by (auto simp: clean_transform_def Let_def allowed_for_def)
qed

section \<open>Article pairs and whitespace before punctuation\<close>

lemma dropWhile_spaces_then:
  "list_all is_space ws \<Longrightarrow> \<not> is_space c \<Longrightarrow> dropWhile is_space (ws @ c # r) = c # r"
  by (induction ws) auto

lemma second_article_match:
  assumes "a2 \<in> set articles" and "r = [] \<or> \<not> is_word L (hd r)"
  shows "second_article L (a2 @ r) = Some r"
  using assms
  by (cases r) (auto simp: second_article_def articles_def u_def is_word_def)

lemma article_pair_match:
  assumes a1: "a1 \<in> set articles" and a2: "a2 \<in> set articles"
    and w: "is_space w" and ws: "list_all is_space ws"
    and r: "r = [] \<or> \<not> is_word L (hd r)"
  shows "article_pair L (a1 @ w # ws @ a2 @ r) = Some (a1, r)"
proof -
  from a2 obtain c cs where c: "a2 = c # cs" "\<not> is_space c"
    by (auto simp: articles_def u_def is_space_def)
  then have d: "dropWhile is_space (ws @ a2 @ r) = a2 @ r"
    using ws by (simp add: dropWhile_spaces_then)
  have s: "second_article L (a2 @ r) = Some r" using a2 r by (rule second_article_match)
  have n: "\<not> is_space 110" by (simp add: is_space_def)
  from a1 show ?thesis
    using w n d s by (auto simp: article_pair_def articles_def u_def)
qed

lemma strip_prefix_iff: "strip_prefix a s = Some t \<longleftrightarrow> s = a @ t"
  by (induction a s rule: strip_prefix.induct) auto

lemma second_article_SomeD:
  assumes "second_article L t = Some r"
  shows "\<exists>a2. a2 \<in> set articles \<and> t = a2 @ r \<and> (r = [] \<or> \<not> is_word L (hd r))"
proof -
  from assms obtain a where a: "a \<in> set articles" and "(case strip_prefix a t of
            None \<Rightarrow> None
          | Some r \<Rightarrow> (case r of [] \<Rightarrow> Some r
                       | c # cs \<Rightarrow> if is_word L c then None else Some r)) = Some r"
    unfolding second_article_def by (blast dest: first_some_SomeD)
  then have "strip_prefix a t = Some r \<and> (r = [] \<or> \<not> is_word L (hd r))"
    by (auto split: option.splits list.splits if_splits)
  with a show ?thesis by (auto simp: strip_prefix_iff)
qed

lemma article_pair_SomeD:
  assumes "article_pair L s = Some (a1, r)"
  shows "spec_article_pair L s a1 r"
proof -
  from assms obtain a where a: "a \<in> set articles" and "(case strip_prefix a s of
            None \<Rightarrow> None
          | Some r \<Rightarrow> (case r of [] \<Rightarrow> None
                       | c # cs \<Rightarrow> if is_space c
                           then map_option (Pair a) (second_article L (dropWhile is_space cs))
                           else None)) = Some (a1, r)"
    unfolding article_pair_def by (blast dest: first_some_SomeD)
  then obtain c cs where s: "strip_prefix a s = Some (c # cs)" and c: "is_space c"
    and r: "second_article L (dropWhile is_space cs) = Some r" and a1: "a1 = a"
    by (auto split: option.splits list.splits if_splits)
  from r obtain a2 where a2: "a2 \<in> set articles" and d: "dropWhile is_space cs = a2 @ r"
    and e: "r = [] \<or> \<not> is_word L (hd r)"
    by (blast dest: second_article_SomeD)
  have "cs = takeWhile is_space cs @ dropWhile is_space cs" by simp
  with d have "cs = takeWhile is_space cs @ a2 @ r" by simp
  with s have "s = a1 @ c # takeWhile is_space cs @ a2 @ r"
    by (simp add: strip_prefix_iff a1)
  moreover have "list_all is_space (takeWhile is_space cs)"
    by (auto simp: list_all_iff dest: set_takeWhileD)
  ultimately show ?thesis
    unfolding spec_article_pair_def using a a1 a2 c e by blast
qed

lemma article_pair_iff: "article_pair L s = Some (a1, r) \<longleftrightarrow> spec_article_pair L s a1 r"
proof
  assume "article_pair L s = Some (a1, r)"
  then show "spec_article_pair L s a1 r" by (rule article_pair_SomeD)
next
  assume "spec_article_pair L s a1 r"
  then show "article_pair L s = Some (a1, r)"
    unfolding spec_article_pair_def by (auto intro: article_pair_match)
qed

lemma article_pair_None_iff:
  "article_pair L s = None \<longleftrightarrow> (\<forall>a1 r. \<not> spec_article_pair L s a1 r)"
proof -
  have "article_pair L s = None \<longleftrightarrow> (\<forall>a1 r. article_pair L s \<noteq> Some (a1, r))"
    by (cases "article_pair L s") auto
  then show ?thesis by (simp add: article_pair_iff)
qed

lemma sub_articles_match:
  assumes "\<not> pw" and "spec_article_pair L s a1 r"
  shows "sub_articles L pw s = a1 @ sub_articles L True r"
proof -
  from assms(2) have m: "article_pair L s = Some (a1, r)" by (simp add: article_pair_iff)
  from assms(2) obtain c cs where "s = c # cs"
    unfolding spec_article_pair_def articles_def u_def by (cases s) auto
  with m assms(1) show ?thesis by simp
qed

lemma sub_articles_keep:
  assumes "pw \<or> (\<forall>a1 r. \<not> spec_article_pair L (c # cs) a1 r)"
  shows "sub_articles L pw (c # cs) = c # sub_articles L (is_word L c) cs"
proof (cases pw)
  case True
  then show ?thesis by simp
next
  case False
  with assms have "article_pair L (c # cs) = None" by (simp add: article_pair_None_iff)
  then show ?thesis by simp
qed

lemma article_pair_other_head: "c \<noteq> 97 \<Longrightarrow> c \<noteq> 116 \<Longrightarrow> article_pair L (c # cs) = None"
  by (simp add: article_pair_def articles_def u_def)

lemma sub_articles_skip:
  "97 \<notin> set pre \<Longrightarrow> 116 \<notin> set pre \<Longrightarrow>
   sub_articles L pw (pre @ s)
     = pre @ sub_articles L (if pre = [] then pw else is_word L (last pre)) s"
proof (induction pre arbitrary: pw)
  case Nil
  show ?case by simp
next
  case (Cons c pre)
  then have "article_pair L (c # pre @ s) = None" by (simp add: article_pair_other_head)
  with Cons show ?case by simp
qed

lemma space_punct_keep:
  assumes "\<not> spec_space_punct P (a # rest)"
  shows "sub_space_punct P (a # rest) = a # sub_space_punct P rest"
proof (cases rest)
  case Nil
  then show ?thesis by simp
next
  case (Cons b cs)
  with assms show ?thesis
    by (cases cs) (auto simp: spec_space_punct_def)
qed

lemma space_punct_match:
  assumes "spec_space_punct P s"
  shows "sub_space_punct P s = tl (take 3 s) @ sub_space_punct P (drop 3 s)"
proof -
  from assms obtain a b cs where "s = a # b # cs" "is_space a" "P b" "cs = [] \<or> is_space (hd cs)"
    unfolding spec_space_punct_def by blast
  then show ?thesis by (cases cs) auto
qed

lemma sub_space_punct_skip:
  "list_all (\<lambda>c. \<not> is_space c) pre \<Longrightarrow> sub_space_punct P (pre @ s) = pre @ sub_space_punct P s"
proof (induction pre)
  case Nil
  show ?case by simp
next
  case (Cons c pre)
  then have "\<not> spec_space_punct P (c # pre @ s)" by (simp add: spec_space_punct_def)
  then have "sub_space_punct P (c # pre @ s) = c # sub_space_punct P (pre @ s)"
    by (rule space_punct_keep)
  with Cons show ?case by simp
qed

lemma en_ar_map:
  "replace_char 39 187 (replace_char 34 171 (replace_char 44 1548 (replace_char 46 1748 s)))
     = map en_ar_char s"
  by (induction s) (auto simp: replace_char_def en_ar_char_def)

lemma translated_field_en_ar:
  "translated_field L EN_AR raw = Inr (py_strip (sub_space_punct punct_arabic (map en_ar_char raw)))"
  by (simp add: translated_field_def postprocess_def en_ar_map)

lemma translated_field_ar_en:
  "translated_field L AR_EN (c # rest)
     = Inr (py_strip (sub_space_punct punct_en (sub_articles L False (char_upper L c @ rest))))"
  by (simp add: translated_field_def postprocess_def)

lemma char_upper_ascii_no_article_start:
  "c < 128 \<Longrightarrow> 97 \<notin> set (char_upper L c) \<and> 116 \<notin> set (char_upper L c)"
  by (auto simp: char_upper_def)

lemma char_upper_ascii_last:
  "c < 128 \<Longrightarrow> is_word L (last (char_upper L c)) = is_word L c"
  by (auto simp: char_upper_def is_word_def)

lemma ar_en_inner_pair:
  assumes c: "c < 128" and pre: "97 \<notin> set pre" "116 \<notin> set pre"
    and b: "\<not> is_word L (last (c # pre))"
    and m: "spec_article_pair L s a1 r"
  shows "translated_field L AR_EN (c # pre @ s)
     = Inr (py_strip (sub_space_punct punct_en (char_upper L c @ pre @ a1 @ sub_articles L True r)))"
proof -
  let ?p = "char_upper L c @ pre"
  have n: "97 \<notin> set ?p" "116 \<notin> set ?p"
    using c pre char_upper_ascii_no_article_start [of c L] by auto
  have ne: "char_upper L c \<noteq> []" using c by (auto simp: char_upper_def)
  have l: "\<not> is_word L (last ?p)"
    using b c char_upper_ascii_last [of c L] by (cases "pre = []") (auto simp: char_upper_def)
  have "sub_articles L False (?p @ s) = ?p @ sub_articles L (is_word L (last ?p)) s"
    using sub_articles_skip [OF n, of L False s] ne by simp
  also have "sub_articles L (is_word L (last ?p)) s = a1 @ sub_articles L True r"
    using l m by (rule sub_articles_match)
  finally show ?thesis by (simp add: translated_field_ar_en)
qed

section \<open>What the \<open>en-ar\<close> branch keeps\<close>

lemma filter_dropWhile_not: "filter (\<lambda>c. \<not> P c) (dropWhile P s) = filter (\<lambda>c. \<not> P c) s"
  by (induction s) auto

lemma filter_py_strip: "filter (\<lambda>c. \<not> is_space c) (py_strip s) = filter (\<lambda>c. \<not> is_space c) s"
proof -
  have "filter (\<lambda>c. \<not> is_space c) (py_strip s)
      = rev (filter (\<lambda>c. \<not> is_space c) (dropWhile is_space (rev (dropWhile is_space s))))"
    by (simp add: py_strip_def rev_filter)
  also have "\<dots> = rev (filter (\<lambda>c. \<not> is_space c) (rev (dropWhile is_space s)))"
    by (simp only: filter_dropWhile_not)
  also have "\<dots> = filter (\<lambda>c. \<not> is_space c) (dropWhile is_space s)"
    by (simp add: rev_filter)
  also have "\<dots> = filter (\<lambda>c. \<not> is_space c) s" by (rule filter_dropWhile_not)
  finally show ?thesis .
qed

lemma filter_sub_space_punct:
  "filter (\<lambda>c. \<not> is_space c) (sub_space_punct P s) = filter (\<lambda>c. \<not> is_space c) s"
  by (induction P s rule: sub_space_punct.induct) auto

lemma punct_en_iff: "punct_en b = (b = 63 \<or> b = 46 \<or> b = 33 \<or> b = 44 \<or> b = 59)"
  by (auto simp: punct_en_def)

lemma punct_arabic_iff: "punct_arabic b = (b = 1567 \<or> b = 1548 \<or> b = 1563)"
  by (auto simp: punct_arabic_def)

lemma en_ar_char_nonspace: "is_space (en_ar_char c) = is_space c"
  by (auto simp: en_ar_char_def is_space_def)

lemma en_ar_inner:
  assumes pre: "list_all (\<lambda>c. \<not> is_space c) pre"
    and m: "spec_space_punct punct_arabic (map en_ar_char t)"
  shows "translated_field L EN_AR (pre @ t)
     = Inr (py_strip (map en_ar_char pre @ tl (take 3 (map en_ar_char t))
         @ sub_space_punct punct_arabic (drop 3 (map en_ar_char t))))"
proof -
  have "list_all (\<lambda>c. \<not> is_space c) (map en_ar_char pre)"
    using pre by (induction pre) (auto simp: en_ar_char_nonspace)
  then have "sub_space_punct punct_arabic (map en_ar_char pre @ map en_ar_char t)
      = map en_ar_char pre @ sub_space_punct punct_arabic (map en_ar_char t)"
    by (rule sub_space_punct_skip)
  also have "sub_space_punct punct_arabic (map en_ar_char t)
      = tl (take 3 (map en_ar_char t)) @ sub_space_punct punct_arabic (drop 3 (map en_ar_char t))"
    using m by (rule space_punct_match)
  finally show ?thesis by (simp add: translated_field_en_ar)
qed

section \<open>A translation that is not blank\<close>

lemma article_nonblank: "a \<in> set articles \<Longrightarrow> list_ex (\<lambda>c. \<not> is_space c) a"
  by (auto simp: articles_def u_def is_space_def)

lemma sub_articles_nonblank:
  "list_ex (\<lambda>c. \<not> is_space c) s \<Longrightarrow> list_ex (\<lambda>c. \<not> is_space c) (sub_articles L pw s)"
proof (induction L pw s rule: sub_articles.induct)
  case (1 L pw)
  then show ?case by simp
next
  case (2 L pw c cs)
  show ?case
  proof (cases "if pw then None else article_pair L (c # cs)")
    case None
    with 2 show ?thesis by auto
  next
    case (Some ar)
    obtain a r where ar: "ar = (a, r)" by (cases ar)
    with Some have "article_pair L (c # cs) = Some (a, r)" by (simp split: if_splits)
    then have "a \<in> set articles" by (auto dest!: article_pair_SomeD simp: spec_article_pair_def)
    then have "list_ex (\<lambda>c. \<not> is_space c) a" by (rule article_nonblank)
    with Some ar show ?thesis by simp
  qed
qed

lemma nonblank_filter: "list_ex P s \<longleftrightarrow> filter P s \<noteq> []"
  by (induction s) auto

lemma char_upper_ascii_nonblank:
  "c < 128 \<Longrightarrow> \<not> is_space c \<Longrightarrow> list_ex (\<lambda>d. \<not> is_space d) (char_upper L c)"
  by (auto simp: char_upper_def is_space_def)

lemma translated_field_nonblank:
  assumes nb: "list_ex (\<lambda>c. \<not> is_space c) raw"
    and up: "d = AR_EN \<and> 128 \<le> hd raw \<longrightarrow> list_ex (\<lambda>c. \<not> is_space c) (char_upper L (hd raw) @ tl raw)"
  shows "\<exists>t. translated_field L d raw = Inr t \<and> py_strip t \<noteq> [] \<and> py_strip t = t"
proof (cases d)
  case EN_AR
  have "filter (\<lambda>c. \<not> is_space c) (map en_ar_char raw) \<noteq> []"
    using nb by (induction raw) (auto simp: en_ar_char_def is_space_def)
  then have "filter (\<lambda>c. \<not> is_space c) (py_strip (sub_space_punct punct_arabic (map en_ar_char raw))) \<noteq> []"
    by (simp add: filter_py_strip filter_sub_space_punct)
  then have "py_strip (sub_space_punct punct_arabic (map en_ar_char raw)) \<noteq> []" by auto
  with EN_AR show ?thesis by (simp add: translated_field_en_ar py_strip_idem)
next
  case AR_EN
  from nb obtain c cs where raw: "raw = c # cs" by (cases raw) auto
  have "list_ex (\<lambda>c. \<not> is_space c) (char_upper L c @ cs)"
  proof (cases "c < 128")
    case True
    show ?thesis
    proof (cases "is_space c")
      case True
      with nb raw show ?thesis by simp
    next
      case False
      with \<open>c < 128\<close> char_upper_ascii_nonblank [of c L] show ?thesis by simp
    qed
  next
    case False
    with up AR_EN raw show ?thesis by simp
  qed
  then have "list_ex (\<lambda>c. \<not> is_space c) (sub_articles L False (char_upper L c @ cs))"
    by (rule sub_articles_nonblank)
  then have "filter (\<lambda>c. \<not> is_space c) (sub_articles L False (char_upper L c @ cs)) \<noteq> []"
    by (simp add: nonblank_filter)
  then have "filter (\<lambda>c. \<not> is_space c)
      (py_strip (sub_space_punct punct_en (sub_articles L False (char_upper L c @ cs)))) \<noteq> []"
    by (simp add: filter_py_strip filter_sub_space_punct)
  then have "py_strip (sub_space_punct punct_en (sub_articles L False (char_upper L c @ cs))) \<noteq> []"
    by auto
  with AR_EN raw show ?thesis by (simp add: translated_field_ar_en py_strip_idem)
qed

lemma translate_text_miss_ok:
  assumes "translation_cache p s = None"
    and "tokenizer E (clean_text L (PyStr s) (src_lang (direction p))) = Inr toks"
    and "generate E toks = Inr out"
    and "decode E out = Inr raw"
    and "translated_field L (direction p) raw = Inr t"
  shows "fst (translate_text L E p s)
       = Inr \<lparr>original = s, cleaned = clean_text L (PyStr s) (src_lang (direction p)), translated = t\<rparr>
     \<and> translation_cache (snd (translate_text L E p s)) s
       = Some \<lparr>original = s, cleaned = clean_text L (PyStr s) (src_lang (direction p)), translated = t\<rparr>"
  using assms by (simp add: translate_text_def translate_miss_def Let_def)

lemma translate_text_miss_raise:
  assumes "translation_cache p s = None"
    and "tokenizer E (clean_text L (PyStr s) (src_lang (direction p))) = Inr toks"
    and "generate E toks = Inr out"
    and "decode E out = Inr raw"
    and "translated_field L (direction p) raw = Inl e"
  shows "fst (translate_text L E p s) = Inl e
     \<and> translation_cache (snd (translate_text L E p s)) = translation_cache p"
  using assms by (simp add: translate_text_def translate_miss_def Let_def)

section \<open>What a second cleaning leaves alone\<close>

lemma normalizer_get_idem: "normalizer_get (normalizer_get c) = normalizer_get c"
  by (simp add: normalizer_get_def arabic_normalizer_def)

lemma normalizer_get_ascii: "c < 128 \<Longrightarrow> normalizer_get c = c"
  by (simp add: normalizer_get_def arabic_normalizer_def)

lemma normalizer_get_32: "normalizer_get 32 = 32"
  by (simp add: normalizer_get_ascii)

lemma arabic_stable:
  "filter (\<lambda>c. \<not> is_tashkil c)
     (map normalizer_get (sub_disallowed al (filter (\<lambda>c. \<not> is_tashkil c) (map normalizer_get z))))
   = sub_disallowed al (filter (\<lambda>c. \<not> is_tashkil c) (map normalizer_get z))"
  by (induction z) (auto simp: sub_disallowed_def normalizer_get_idem normalizer_get_32 is_tashkil_def)

lemma sub_disallowed_idem:
  "al 32 \<Longrightarrow> sub_disallowed al (sub_disallowed al s) = sub_disallowed al s"
  by (induction s) (auto simp: sub_disallowed_def)

lemma allowed_ar_32: "allowed_ar L 32"
  by (simp add: allowed_ar_def is_space_32)

lemma allowed_other_32: "allowed_other L 32"
  by (simp add: allowed_other_def is_space_32)

lemma clean_transform_stable:
  assumes y: "y = clean_transform L (PyStr x) lang"
    and ws: "normalize_ws y = y"
    and em: "replace_emoji L y = y"
    and nf: "lang = ''ar'' \<longrightarrow> nfkd L y = y"
  shows "clean_transform L (PyStr y) lang = y"
proof (cases "lang = ''ar''")
  case True
  define z where "z = nfkd L (replace_emoji L (normalize_ws x))"
  have y': "y = sub_disallowed (allowed_ar L) (filter (\<lambda>c. \<not> is_tashkil c) (map normalizer_get z))"
    using y True by (simp add: clean_transform_def Let_def normalize_arabic_def z_def)
  have "normalize_arabic L y = filter (\<lambda>c. \<not> is_tashkil c) (map normalizer_get y)"
    using nf True by (simp add: normalize_arabic_def)
  also have "\<dots> = y" unfolding y' by (rule arabic_stable)
  finally have na: "normalize_arabic L y = y" .
  have "sub_disallowed (allowed_ar L) y = y"
    unfolding y' by (rule sub_disallowed_idem) (rule allowed_ar_32)
  with True ws em na show ?thesis by (simp add: clean_transform_def Let_def)
next
  case False
  have y': "y = sub_disallowed (allowed_other L) (replace_emoji L (normalize_ws x))"
    using y False by (simp add: clean_transform_def Let_def)
  have "sub_disallowed (allowed_other L) y = y"
    unfolding y' by (rule sub_disallowed_idem) (rule allowed_other_32)
  with False ws em show ?thesis by (simp add: clean_transform_def Let_def)
qed

lemma is_ascii_normalize_ws: "is_ascii x \<Longrightarrow> is_ascii (normalize_ws x)"
  using set_normalize_ws [of x] by (auto simp: is_ascii_def list_all_iff)

lemma normalize_arabic_ascii: "is_ascii t \<Longrightarrow> normalize_arabic L t = t"
proof -
  assume a: "is_ascii t"
  then have "filter (\<lambda>c. \<not> is_tashkil c) (map normalizer_get t) = t"
    by (induction t) (auto simp: is_ascii_def normalizer_get_ascii is_tashkil_def)
  with a show ?thesis by (simp add: normalize_arabic_def nfkd_def)
qed

lemma clean_transform_ascii:
  assumes "is_ascii x" and "list_all (allowed_for L lang) x"
  shows "clean_transform L (PyStr x) lang = normalize_ws x"
proof -
  have a: "is_ascii (normalize_ws x)" using assms(1) by (rule is_ascii_normalize_ws)
  show ?thesis
    using assms(2)
    by (rule clean_allowed) (simp_all add: a replace_emoji_def normalize_arabic_ascii)
qed

section \<open>Properties of normalisation and cleaning\<close>

text \<open>
  C8. Whatever the input, and whatever NFKD does to it, the output of
  \<open>normalize_arabic\<close> holds no code point from U+064B to U+065F: they are deleted.
\<close>

theorem normalize_arabic_no_tashkil:
  "\<forall>c \<in> set (normalize_arabic L s). \<not> (1611 \<le> c \<and> c \<le> 1631)"
  by (simp add: normalize_arabic_def is_tashkil_def)

theorem normalize_arabic_no_tashkil_witness:
  "normalize_arabic ascii_lib [1576, 1614, 1577] = [1576, 1607]
   \<and> list_all (\<lambda>c. \<not> (1611 \<le> c \<and> c \<le> 1631)) (normalize_arabic ascii_lib [1576, 1614, 1577])"
  using normalize_arabic_no_tashkil [of ascii_lib "[1576, 1614, 1577]"]
  by (simp add: normalize_arabic_def nfkd_def is_ascii_def ascii_lib_def normalizer_get_def
      arabic_normalizer_def is_tashkil_def)

text \<open>
  C7. Three spaces cleaned as Arabic give \<open>None\<close>. Three U+1F600 cleaned as English
  give \<open>None\<close> as soon as the emoji package removes them, which is the one fact about
  the package the statement needs.
\<close>

theorem clean_text_rejects:
  "clean_text L (PyStr (u ''   '')) ''ar'' = None
   \<and> (replace_emoji L [128512, 128512, 128512] = []
        \<longrightarrow> clean_text L (PyStr [128512, 128512, 128512]) ''en'' = None)"
  by (simp add: text_defs)

theorem clean_text_rejects_witness:
  "clean_text emoticon_lib (PyStr (u ''   '')) ''ar'' = None
   \<and> replace_emoji emoticon_lib [128512, 128512, 128512] = []
   \<and> clean_text emoticon_lib (PyStr [128512, 128512, 128512]) ''en'' = None"
proof -
  have h: "replace_emoji emoticon_lib [128512, 128512, 128512] = []"
    by (simp add: replace_emoji_def is_ascii_def emoticon_lib_def ascii_lib_def)
  with clean_text_rejects [of emoticon_lib] show ?thesis by blast
qed

text \<open>
  C10. \<open>clean_text\<close> returns \<open>None\<close> exactly when the text it has built is empty, and
  otherwise returns that text as it is. Three dollar signs cleaned as English come back as
  three spaces, untrimmed, and not as \<open>None\<close>.
\<close>

theorem clean_text_none_iff_empty:
  "(clean_text L text lang = None) = (clean_transform L text lang = [])
   \<and> (clean_text L text lang = Some y) = (y = clean_transform L text lang \<and> y \<noteq> [])
   \<and> clean_text L (PyStr (u ''$$$'')) ''en'' = Some (u ''   '')"
proof -
  have "clean_text L (PyStr (u ''$$$'')) ''en'' = Some (u ''   '')"
    by (simp add: text_defs)
  then show ?thesis by (auto simp: clean_text_def Let_def)
qed

section \<open>The cache\<close>

text \<open>
  C1. When a call of \<open>translate_text\<close> on \<open>s\<close> returns a result, the next call on \<open>s\<close>
  returns the same result and leaves the pipeline as it is: no call reaches the engine.
  The second call does not depend on the engine or on the Unicode library at all, so
  neither the engine nor the cleaning and post-processing steps run again.
\<close>

theorem translate_text_cached:
  assumes "translate_text L E p s = (Inr r, p')"
  shows "translate_text L' E' p' s = (Inr r, p')"
proof -
  have "translation_cache p' s = Some r"
  proof (cases "translation_cache p s")
    case (Some r0)
    with assms show ?thesis by (simp add: translate_text_def)
  next
    case None
    with assms have "translate_miss L E p s = (Inr r, p')"
      by (auto simp: translate_text_def split: prod.splits sum.splits)
    then show ?thesis
      by (auto simp: translate_miss_def Let_def split: sum.splits)
  qed
  then show ?thesis by (simp add: translate_text_def)
qed

theorem translate_text_cached_witness:
  "fst (translate_text ascii_lib echo_engine (new_pipeline EN_AR) (u ''hi''))
     = Inr \<lparr>original = u ''hi'', cleaned = Some (u ''hi''), translated = u ''hi''\<rparr>
   \<and> translate_text emoticon_lib (strict_engine [])
       (snd (translate_text ascii_lib echo_engine (new_pipeline EN_AR) (u ''hi''))) (u ''hi'')
     = translate_text ascii_lib echo_engine (new_pipeline EN_AR) (u ''hi'')"
proof -
  let ?c = "translate_text ascii_lib echo_engine (new_pipeline EN_AR) (u ''hi'')"
  have r: "fst ?c = Inr \<lparr>original = u ''hi'', cleaned = Some (u ''hi''), translated = u ''hi''\<rparr>"
    by (simp add: text_defs post_defs run_defs)
  then have h: "?c = (Inr \<lparr>original = u ''hi'', cleaned = Some (u ''hi''),
      translated = u ''hi''\<rparr>, snd ?c)"
    by (metis prod.collapse)
  have "translate_text emoticon_lib (strict_engine []) (snd ?c) (u ''hi'') = ?c"
    using translate_text_cached [OF h, of emoticon_lib "strict_engine []"] h by simp
  with r show ?thesis by simp
qed

text \<open>
  C6. When \<open>translate_text\<close> raises, the cache is what it was before the call.
\<close>

theorem translate_text_raise_keeps_cache:
  assumes "translate_text L E p s = (Inl e, p')"
  shows "translation_cache p' = translation_cache p"
proof (cases "translation_cache p s")
  case (Some r0)
  with assms show ?thesis by (simp add: translate_text_def)
next
  case None
  with assms obtain q where q: "translate_miss L E p s = (Inl e, q)"
    and p': "p' = (if is_exception e then q\<lparr>error_log := error_log q @ [e]\<rparr> else q)"
    by (auto simp: translate_text_def split: prod.splits sum.splits)
  from q have "translation_cache q = translation_cache p"
    by (auto simp: translate_miss_def Let_def split: sum.splits)
  with p' show ?thesis by simp
qed

theorem translate_text_raise_keeps_cache_witness:
  "fst (translate_text ascii_lib (const_engine []) (new_pipeline AR_EN) (u ''hi'')) = Inl IndexError
   \<and> translation_cache (snd (translate_text ascii_lib (const_engine []) (new_pipeline AR_EN) (u ''hi'')))
     = translation_cache (new_pipeline AR_EN)"
proof -
  let ?c = "translate_text ascii_lib (const_engine []) (new_pipeline AR_EN) (u ''hi'')"
  have r: "fst ?c = Inl IndexError"
    by (simp add: text_defs post_defs run_defs)
  then have h: "?c = (Inl IndexError, snd ?c)"
    by (metis prod.collapse)
  from translate_text_raise_keeps_cache [OF h] r show ?thesis by simp
qed

section \<open>Empty input and empty output\<close>

text \<open>
  C2, as the code has it. On a miss on which the three calls of the engine succeed, let
  \<open>raw\<close> be the decoded output. When \<open>raw\<close> is not blank, the call returns and stores a
  result whose \<open>translated\<close> field is not empty after trimming, in both directions (in
  direction \<open>ar-en\<close> with a first character outside ASCII this needs that upper-casing it
  leaves the text not blank, the one fact about \<open>str.upper\<close> used). When \<open>raw\<close> is the
  empty string, direction \<open>ar-en\<close> raises \<open>IndexError\<close> and leaves the cache as it was,
  and direction \<open>en-ar\<close> returns and stores a result whose \<open>translated\<close> field is empty.
\<close>

theorem engine_output_and_translated:
  assumes miss: "translation_cache p s = None"
    and tok: "tokenizer E (clean_text L (PyStr s) (src_lang (direction p))) = Inr toks"
    and gen: "generate E toks = Inr out"
    and dec: "decode E out = Inr raw"
  shows "(list_ex (\<lambda>c. \<not> is_space c) raw
          \<and> (direction p = AR_EN \<and> 128 \<le> hd raw
               \<longrightarrow> list_ex (\<lambda>c. \<not> is_space c) (char_upper L (hd raw) @ tl raw))
          \<longrightarrow> (\<exists>t. py_strip t \<noteq> []
                 \<and> fst (translate_text L E p s)
                   = Inr \<lparr>original = s, cleaned = clean_text L (PyStr s) (src_lang (direction p)),
                          translated = t\<rparr>
                 \<and> translation_cache (snd (translate_text L E p s)) s
                   = Some \<lparr>original = s, cleaned = clean_text L (PyStr s) (src_lang (direction p)),
                           translated = t\<rparr>))
       \<and> (raw = [] \<and> direction p = AR_EN
          \<longrightarrow> fst (translate_text L E p s) = Inl IndexError
            \<and> translation_cache (snd (translate_text L E p s)) = translation_cache p)
       \<and> (raw = [] \<and> direction p = EN_AR
          \<longrightarrow> fst (translate_text L E p s)
              = Inr \<lparr>original = s, cleaned = clean_text L (PyStr s) ''en'', translated = []\<rparr>
            \<and> translation_cache (snd (translate_text L E p s)) s
              = Some \<lparr>original = s, cleaned = clean_text L (PyStr s) ''en'', translated = []\<rparr>)"
proof (intro conjI impI)
  assume h: "list_ex (\<lambda>c. \<not> is_space c) raw
          \<and> (direction p = AR_EN \<and> 128 \<le> hd raw
               \<longrightarrow> list_ex (\<lambda>c. \<not> is_space c) (char_upper L (hd raw) @ tl raw))"
  then obtain t where t: "translated_field L (direction p) raw = Inr t" "py_strip t \<noteq> []"
    using translated_field_nonblank [of raw "direction p" L] by blast
  from translate_text_miss_ok [OF miss tok gen dec t(1)] t(2)
  show "\<exists>t. py_strip t \<noteq> []
                 \<and> fst (translate_text L E p s)
                   = Inr \<lparr>original = s, cleaned = clean_text L (PyStr s) (src_lang (direction p)),
                          translated = t\<rparr>
                 \<and> translation_cache (snd (translate_text L E p s)) s
                   = Some \<lparr>original = s, cleaned = clean_text L (PyStr s) (src_lang (direction p)),
                           translated = t\<rparr>"
    by blast
next
  assume h: "raw = [] \<and> direction p = AR_EN"
  then have "translated_field L (direction p) raw = Inl IndexError"
    by (simp add: translated_field_def postprocess_def)
  from translate_text_miss_raise [OF miss tok gen dec this]
  show "fst (translate_text L E p s) = Inl IndexError"
    and "translation_cache (snd (translate_text L E p s)) = translation_cache p"
    by simp_all
next
  assume h: "raw = [] \<and> direction p = EN_AR"
  then have "translated_field L (direction p) raw = Inr []"
    by (simp add: translated_field_en_ar py_strip_def)
  from translate_text_miss_ok [OF miss tok gen dec this] h
  show "fst (translate_text L E p s)
              = Inr \<lparr>original = s, cleaned = clean_text L (PyStr s) ''en'', translated = []\<rparr>"
    and "translation_cache (snd (translate_text L E p s)) s
              = Some \<lparr>original = s, cleaned = clean_text L (PyStr s) ''en'', translated = []\<rparr>"
    by simp_all
qed

theorem engine_output_and_translated_witness:
  "fst (translate_text ascii_lib (const_engine (u ''ok .'')) (new_pipeline AR_EN) (u ''hi''))
     = Inr \<lparr>original = u ''hi'', cleaned = Some (u ''hi''), translated = u ''Ok.''\<rparr>
   \<and> py_strip (u ''Ok.'') \<noteq> []
   \<and> fst (translate_text ascii_lib (const_engine [171, 97]) (new_pipeline AR_EN) (u ''hi''))
     = Inr \<lparr>original = u ''hi'', cleaned = Some (u ''hi''), translated = [171, 97]\<rparr>
   \<and> py_strip [171, 97] \<noteq> []
   \<and> fst (translate_text ascii_lib (const_engine (u ''ok .'')) (new_pipeline EN_AR) (u ''hi''))
     = Inr \<lparr>original = u ''hi'', cleaned = Some (u ''hi''), translated = [111, 107, 32, 1748]\<rparr>
   \<and> py_strip [111, 107, 32, 1748] \<noteq> []
   \<and> fst (translate_text ascii_lib (const_engine []) (new_pipeline AR_EN) (u ''hi'')) = Inl IndexError
   \<and> fst (translate_text ascii_lib (const_engine []) (new_pipeline EN_AR) (u ''hi''))
     = Inr \<lparr>original = u ''hi'', cleaned = Some (u ''hi''), translated = []\<rparr>"
proof -
  have c: "clean_text ascii_lib (PyStr (u ''hi'')) ''en'' = Some (u ''hi'')"
    by (simp add: text_defs)
  have r1: "fst (translate_text ascii_lib (const_engine (u ''ok .'')) (new_pipeline AR_EN) (u ''hi''))
     = Inr \<lparr>original = u ''hi'', cleaned = Some (u ''hi''), translated = u ''Ok.''\<rparr>"
    by (simp add: text_defs post_defs run_defs)
  have r2: "fst (translate_text ascii_lib (const_engine [171, 97]) (new_pipeline AR_EN) (u ''hi''))
     = Inr \<lparr>original = u ''hi'', cleaned = Some (u ''hi''), translated = [171, 97]\<rparr>"
    by (simp add: text_defs post_defs run_defs ascii_lib_def)
  have r3: "fst (translate_text ascii_lib (const_engine (u ''ok .'')) (new_pipeline EN_AR) (u ''hi''))
     = Inr \<lparr>original = u ''hi'', cleaned = Some (u ''hi''), translated = [111, 107, 32, 1748]\<rparr>"
    by (simp add: text_defs post_defs run_defs)
  have nb1: "list_ex (\<lambda>c. \<not> is_space c) (u ''ok .'')
      \<and> (direction (new_pipeline AR_EN) = AR_EN \<and> 128 \<le> hd (u ''ok .'')
           \<longrightarrow> list_ex (\<lambda>c. \<not> is_space c)
                 (char_upper ascii_lib (hd (u ''ok .'')) @ tl (u ''ok .'')))"
    by (simp add: text_defs)
  have nb2: "list_ex (\<lambda>c. \<not> is_space c) [171, 97]
      \<and> (direction (new_pipeline AR_EN) = AR_EN \<and> 128 \<le> hd [171, 97 :: nat]
           \<longrightarrow> list_ex (\<lambda>c. \<not> is_space c) (char_upper ascii_lib (hd [171, 97]) @ tl [171, 97]))"
    by (simp add: text_defs ascii_lib_def)
  have nb3: "list_ex (\<lambda>c. \<not> is_space c) (u ''ok .'')
      \<and> (direction (new_pipeline EN_AR) = AR_EN \<and> 128 \<le> hd (u ''ok .'')
           \<longrightarrow> list_ex (\<lambda>c. \<not> is_space c)
                 (char_upper ascii_lib (hd (u ''ok .'')) @ tl (u ''ok .'')))"
    by (simp add: text_defs)
  from engine_output_and_translated [of "new_pipeline AR_EN" "u ''hi''"
      "const_engine (u ''ok .'')" ascii_lib "[]" "[]" "u ''ok .''"] nb1
  obtain t where "py_strip t \<noteq> []"
    and "fst (translate_text ascii_lib (const_engine (u ''ok .'')) (new_pipeline AR_EN) (u ''hi''))
       = Inr \<lparr>original = u ''hi'',
              cleaned = clean_text ascii_lib (PyStr (u ''hi''))
                (src_lang (direction (new_pipeline AR_EN))),
              translated = t\<rparr>"
    by (auto simp: new_pipeline_def const_engine_def)
  with r1 have n1: "py_strip (u ''Ok.'') \<noteq> []" by simp
  from engine_output_and_translated [of "new_pipeline AR_EN" "u ''hi''"
      "const_engine [171, 97]" ascii_lib "[]" "[]" "[171, 97]"] nb2
  obtain t where "py_strip t \<noteq> []"
    and "fst (translate_text ascii_lib (const_engine [171, 97]) (new_pipeline AR_EN) (u ''hi''))
       = Inr \<lparr>original = u ''hi'',
              cleaned = clean_text ascii_lib (PyStr (u ''hi''))
                (src_lang (direction (new_pipeline AR_EN))),
              translated = t\<rparr>"
    by (auto simp: new_pipeline_def const_engine_def)
  with r2 have n2: "py_strip [171, 97] \<noteq> []" by simp
  from engine_output_and_translated [of "new_pipeline EN_AR" "u ''hi''"
      "const_engine (u ''ok .'')" ascii_lib "[]" "[]" "u ''ok .''"] nb3
  obtain t where "py_strip t \<noteq> []"
    and "fst (translate_text ascii_lib (const_engine (u ''ok .'')) (new_pipeline EN_AR) (u ''hi''))
       = Inr \<lparr>original = u ''hi'',
              cleaned = clean_text ascii_lib (PyStr (u ''hi''))
                (src_lang (direction (new_pipeline EN_AR))),
              translated = t\<rparr>"
    by (auto simp: new_pipeline_def const_engine_def)
  with r3 have n3: "py_strip [111, 107, 32, 1748] \<noteq> []" by simp
  have a: "fst (translate_text ascii_lib (const_engine []) (new_pipeline AR_EN) (u ''hi''))
      = Inl IndexError"
    using engine_output_and_translated [of "new_pipeline AR_EN" "u ''hi''" "const_engine []"
        ascii_lib "[]" "[]" "[]"]
    by (simp add: new_pipeline_def const_engine_def)
  have b: "fst (translate_text ascii_lib (const_engine []) (new_pipeline EN_AR) (u ''hi''))
      = Inr \<lparr>original = u ''hi'', cleaned = Some (u ''hi''), translated = []\<rparr>"
    using engine_output_and_translated [of "new_pipeline EN_AR" "u ''hi''" "const_engine []"
        ascii_lib "[]" "[]" "[]"] c
    by (simp add: new_pipeline_def const_engine_def)
  from r1 n1 r2 n2 r3 n3 a b show ?thesis by simp
qed

text \<open>
  The claim C2 as it is written fails: in direction \<open>en-ar\<close> an engine that answers the
  empty string yields a stored result with an empty \<open>translated\<close> field, and in direction
  \<open>ar-en\<close> an engine that answers one space does the same.
\<close>

theorem blank_translation_cached:
  "fst (translate_text ascii_lib (const_engine []) (new_pipeline EN_AR) (u ''hi''))
     = Inr \<lparr>original = u ''hi'', cleaned = Some (u ''hi''), translated = []\<rparr>
   \<and> translation_cache
       (snd (translate_text ascii_lib (const_engine []) (new_pipeline EN_AR) (u ''hi'')))
       (u ''hi'')
     = Some \<lparr>original = u ''hi'', cleaned = Some (u ''hi''), translated = []\<rparr>
   \<and> fst (translate_text ascii_lib (const_engine (u '' '')) (new_pipeline AR_EN) (u ''hi''))
     = Inr \<lparr>original = u ''hi'', cleaned = Some (u ''hi''), translated = []\<rparr>"
  by (simp add: text_defs post_defs run_defs)

text \<open>
  C5, as the code has it. On a miss, when cleaning gives \<open>None\<close>, the tokenizer of the
  engine is called with \<open>None\<close>, whatever the engine: it is the first call the pipeline
  makes. When the tokenizer raises, nothing else of the engine runs, the cache is
  untouched and the tokenizer's own exception is raised again, after a line in the log
  when it is an \<open>Exception\<close> and with no line when it is not.
\<close>

theorem rejected_text_reaches_tokenizer:
  assumes "translation_cache p s = None"
    and "clean_text L (PyStr s) (src_lang (direction p)) = None"
  shows "take (Suc (length (calls p))) (calls (snd (translate_text L E p s)))
           = calls p @ [Tokenize None]
       \<and> (tokenizer E None = Inl e \<longrightarrow>
            translate_text L E p s
              = (Inl e, p\<lparr>calls := calls p @ [Tokenize None],
                          error_log := (if is_exception e then error_log p @ [e]
                                        else error_log p)\<rparr>))"
  using assms
  by (auto simp: translate_text_def translate_miss_def Let_def split: sum.splits)

theorem rejected_text_reaches_tokenizer_witness:
  "translate_text ascii_lib (strict_engine []) (new_pipeline EN_AR) []
     = (Inl (EngineError 0),
        \<lparr>direction = EN_AR, translation_cache = Map.empty, calls = [Tokenize None],
         error_log = [EngineError 0]\<rparr>)
   \<and> translate_text ascii_lib interrupted_engine (new_pipeline EN_AR) []
     = (Inl (EngineInterrupt 0),
        \<lparr>direction = EN_AR, translation_cache = Map.empty, calls = [Tokenize None],
         error_log = []\<rparr>)
   \<and> take 1 (calls (snd (translate_text ascii_lib echo_engine (new_pipeline EN_AR) [])))
     = [Tokenize None]"
proof -
  have c: "clean_text ascii_lib (PyStr []) (src_lang (direction (new_pipeline EN_AR))) = None"
    by (simp add: text_defs new_pipeline_def)
  have m: "translation_cache (new_pipeline EN_AR) [] = None"
    by (simp add: new_pipeline_def)
  have t: "tokenizer (strict_engine []) None = Inl (EngineError 0)"
    by (simp add: strict_engine_def)
  have i: "tokenizer interrupted_engine None = Inl (EngineInterrupt 0)"
    by (simp add: interrupted_engine_def)
  from rejected_text_reaches_tokenizer [OF m c, of "strict_engine []" "EngineError 0"] t
  have 1: "translate_text ascii_lib (strict_engine []) (new_pipeline EN_AR) []
     = (Inl (EngineError 0),
        \<lparr>direction = EN_AR, translation_cache = Map.empty, calls = [Tokenize None],
         error_log = [EngineError 0]\<rparr>)"
    by (simp add: new_pipeline_def)
  from rejected_text_reaches_tokenizer [OF m c, of interrupted_engine "EngineInterrupt 0"] i
  have 2: "translate_text ascii_lib interrupted_engine (new_pipeline EN_AR) []
     = (Inl (EngineInterrupt 0),
        \<lparr>direction = EN_AR, translation_cache = Map.empty, calls = [Tokenize None],
         error_log = []\<rparr>)"
    by (simp add: new_pipeline_def)
  from rejected_text_reaches_tokenizer [OF m c, of echo_engine]
  have 3: "take 1 (calls (snd (translate_text ascii_lib echo_engine (new_pipeline EN_AR) [])))
     = [Tokenize None]"
    by (simp add: new_pipeline_def)
  from 1 2 3 show ?thesis by simp
qed

text \<open>
  The claim C5 as it is written fails: on the empty text the tokenizer of the engine is
  called (with \<open>None\<close>), the exception raised is the engine's own, and with an engine
  that accepts \<open>None\<close> the call returns a result and stores it.
\<close>

theorem rejected_text_engine_invoked:
  "clean_text ascii_lib (PyStr []) ''en'' = None
   \<and> calls (snd (translate_text ascii_lib (strict_engine []) (new_pipeline EN_AR) []))
     = [Tokenize None]
   \<and> fst (translate_text ascii_lib (strict_engine []) (new_pipeline EN_AR) [])
     = Inl (EngineError 0)
   \<and> fst (translate_text ascii_lib echo_engine (new_pipeline EN_AR) [])
     = Inr \<lparr>original = [], cleaned = None, translated = []\<rparr>
   \<and> calls (snd (translate_text ascii_lib echo_engine (new_pipeline EN_AR) []))
     = [Tokenize None, Generate [], Decode []]"
  by (simp add: text_defs post_defs run_defs)

section \<open>Idempotence of cleaning\<close>

text \<open>
  C9, as the code has it. Let cleaning \<open>x\<close> give a string \<open>y\<close>. If \<open>y\<close> is stable, that is,
  whitespace normalisation leaves \<open>y\<close> as it is, the emoji package finds nothing in \<open>y\<close>
  and, for \<open>'ar'\<close>, NFKD leaves \<open>y\<close> as it is, then cleaning \<open>y\<close> gives \<open>y\<close> again. This
  is so in particular for every ASCII string \<open>x\<close> of allowed characters whose cleaning is
  not \<open>None\<close>, with no condition on the libraries. If cleaning \<open>x\<close> gives \<open>None\<close>, the
  second call receives \<open>None\<close>, turns it into the string \<open>None\<close> and returns that.
\<close>

theorem clean_text_fixed_point:
  "(clean_text L (PyStr x) lang = Some y \<and> normalize_ws y = y \<and> replace_emoji L y = y
      \<and> (lang = ''ar'' \<longrightarrow> nfkd L y = y)
    \<longrightarrow> clean_text L (py_of_result (clean_text L (PyStr x) lang)) lang
        = clean_text L (PyStr x) lang)
   \<and> (is_ascii x \<and> list_all (allowed_for L lang) x \<and> clean_text L (PyStr x) lang \<noteq> None
    \<longrightarrow> clean_text L (py_of_result (clean_text L (PyStr x) lang)) lang
        = clean_text L (PyStr x) lang)
   \<and> (clean_text L (PyStr x) lang = None
    \<longrightarrow> clean_text L (py_of_result (clean_text L (PyStr x) lang)) lang = Some (u ''None''))"
proof (intro conjI impI)
  assume h: "clean_text L (PyStr x) lang = Some y \<and> normalize_ws y = y \<and> replace_emoji L y = y
      \<and> (lang = ''ar'' \<longrightarrow> nfkd L y = y)"
  then have y: "y = clean_transform L (PyStr x) lang" and ne: "y \<noteq> []"
    by (auto simp: clean_text_def Let_def split: if_splits)
  from y h have "clean_transform L (PyStr y) lang = y"
    by (intro clean_transform_stable) simp_all
  with ne h show "clean_text L (py_of_result (clean_text L (PyStr x) lang)) lang
        = clean_text L (PyStr x) lang"
    by (simp add: clean_text_def Let_def py_of_result_def)
next
  assume h: "is_ascii x \<and> list_all (allowed_for L lang) x \<and> clean_text L (PyStr x) lang \<noteq> None"
  let ?y = "normalize_ws x"
  from h have t: "clean_transform L (PyStr x) lang = ?y" by (simp add: clean_transform_ascii)
  with h have c: "clean_text L (PyStr x) lang = Some ?y"
    by (auto simp: clean_text_def Let_def split: if_splits)
  have a: "is_ascii ?y" using h by (simp add: is_ascii_normalize_ws)
  have "clean_transform L (PyStr ?y) lang = ?y"
    using t [symmetric]
    by (rule clean_transform_stable) (simp_all add: normalize_ws_idem a replace_emoji_def nfkd_def)
  with c show "clean_text L (py_of_result (clean_text L (PyStr x) lang)) lang
        = clean_text L (PyStr x) lang"
    by (auto simp: clean_text_def Let_def py_of_result_def split: if_splits)
next
  assume "clean_text L (PyStr x) lang = None"
  moreover have "clean_text L PyNone lang = Some (u ''None'')" by (simp add: text_defs)
  ultimately show "clean_text L (py_of_result (clean_text L (PyStr x) lang)) lang = Some (u ''None'')"
    by (simp add: py_of_result_def)
qed

theorem clean_text_fixed_point_witness:
  "clean_text ascii_lib (PyStr [1576, 1614, 1577]) ''ar'' = Some [1576, 1607]
   \<and> clean_text ascii_lib (PyStr [1576, 1607]) ''ar'' = Some [1576, 1607]
   \<and> clean_text ascii_lib (PyStr (u ''a  b'')) ''en'' = Some (u ''a b'')
   \<and> clean_text ascii_lib (PyStr (u ''a b'')) ''en'' = Some (u ''a b'')
   \<and> clean_text ascii_lib (PyStr (u '' '')) ''en'' = None
   \<and> clean_text ascii_lib PyNone ''en'' = Some (u ''None'')"
proof -
  have a: "clean_text ascii_lib (PyStr [1576, 1614, 1577]) ''ar'' = Some [1576, 1607]"
    by (simp add: text_defs ascii_lib_def)
  have ha: "normalize_ws [1576, 1607] = [1576, 1607] \<and> replace_emoji ascii_lib [1576, 1607] = [1576, 1607]
      \<and> (''ar'' = ''ar'' \<longrightarrow> nfkd ascii_lib [1576, 1607] = [1576, 1607])"
    by (simp add: text_defs ascii_lib_def)
  have e: "clean_text ascii_lib (PyStr (u ''a  b'')) ''en'' = Some (u ''a b'')"
    by (simp add: text_defs)
  have he: "is_ascii (u ''a  b'') \<and> list_all (allowed_for ascii_lib ''en'') (u ''a  b'')"
    by (simp add: text_defs allowed_for_def)
  have n: "clean_text ascii_lib (PyStr (u '' '')) ''en'' = None"
    by (simp add: text_defs)
  from clean_text_fixed_point [of ascii_lib "[1576, 1614, 1577]" "''ar''" "[1576, 1607]"] a ha
  have "clean_text ascii_lib (py_of_result (clean_text ascii_lib (PyStr [1576, 1614, 1577]) ''ar'')) ''ar''
      = clean_text ascii_lib (PyStr [1576, 1614, 1577]) ''ar''"
    by blast
  with a have a2: "clean_text ascii_lib (PyStr [1576, 1607]) ''ar'' = Some [1576, 1607]"
    by (simp add: py_of_result_def)
  from clean_text_fixed_point [of ascii_lib "u ''a  b''" "''en''"] e he
  have "clean_text ascii_lib (py_of_result (clean_text ascii_lib (PyStr (u ''a  b'')) ''en'')) ''en''
      = clean_text ascii_lib (PyStr (u ''a  b'')) ''en''"
    by simp
  with e have e2: "clean_text ascii_lib (PyStr (u ''a b'')) ''en'' = Some (u ''a b'')"
    by (simp add: py_of_result_def)
  from clean_text_fixed_point [of ascii_lib "u '' ''" "''en''"] n
  have "clean_text ascii_lib (py_of_result (clean_text ascii_lib (PyStr (u '' '')) ''en'')) ''en''
      = Some (u ''None'')"
    by blast
  with n have n2: "clean_text ascii_lib PyNone ''en'' = Some (u ''None'')"
    by (simp add: py_of_result_def)
  from a a2 e e2 n n2 show ?thesis by simp
qed

text \<open>
  The claim C9 as it is written fails, on strings of allowed characters only. On the empty
  string and on a string of spaces cleaning gives \<open>None\<close>, and cleaning \<open>None\<close> gives the
  string \<open>None\<close>. On \<open>a\<close>, space, U+064B, space, \<open>b\<close> cleaned as Arabic the diacritic is
  deleted and leaves two spaces, which the second cleaning collapses.
\<close>

theorem clean_text_not_idempotent:
  "clean_text ascii_lib (PyStr []) ''en'' = None
   \<and> clean_text ascii_lib (py_of_result (clean_text ascii_lib (PyStr []) ''en'')) ''en''
     = Some (u ''None'')
   \<and> clean_text ascii_lib (PyStr (u ''   '')) ''ar'' = None
   \<and> clean_text ascii_lib (py_of_result (clean_text ascii_lib (PyStr (u ''   '')) ''ar'')) ''ar''
     = Some (u ''None'')
   \<and> list_all (allowed_for ascii_lib ''ar'') [97, 32, 1611, 32, 98]
   \<and> clean_text ascii_lib (PyStr [97, 32, 1611, 32, 98]) ''ar'' = Some (u ''a  b'')
   \<and> clean_text ascii_lib (py_of_result (clean_text ascii_lib (PyStr [97, 32, 1611, 32, 98]) ''ar'')) ''ar''
     = Some (u ''a b'')"
  by (simp add: text_defs py_of_result_def allowed_for_def ascii_lib_def)

section \<open>Post-processing\<close>

text \<open>
  C3, as the code has it. In direction \<open>ar-en\<close> the empty output raises. Otherwise the
  first character is upper-cased, then article pairs are collapsed, then whitespace before
  punctuation is removed, and the result is trimmed. Both passes scan from left to right
  and resume behind each match, so matches do not overlap. At a position that does not
  follow a word character and where an article pair starts, the pair is replaced by its
  first article; at every other position the character is kept. The articles are \<open>a\<close>,
  \<open>an\<close>, \<open>the\<close> in lower case: the pattern has no flag. Where a whitespace character, a
  mark among \<open>? . ! , ;\<close> and then whitespace or the end of the text start, the first of
  the three is dropped and the other two are kept; elsewhere the character is kept. A pair
  inside the text, after a first ASCII character and a stretch without \<open>a\<close> or \<open>t\<close> that
  ends before a word boundary, is collapsed. So \<open>the the cat sat .\<close> becomes
  \<open>The the cat sat.\<close>, the first article being \<open>The\<close> by the time pairs are sought;
  \<open>see the the cat .\<close> becomes \<open>See the cat.\<close>; \<open>see a an the cat\<close> becomes
  \<open>See a the cat\<close>; \<open>panda the cat\<close> and \<open>see the there\<close> keep their articles;
  \<open>x , ,\<close> becomes \<open>X, ,\<close> and \<open>a ,b\<close> becomes \<open>A ,b\<close>.
\<close>

theorem postprocess_ar_en:
  "translated_field L AR_EN [] = Inl IndexError
   \<and> translated_field L AR_EN (c # rest)
     = Inr (py_strip (sub_space_punct punct_en (sub_articles L False (char_upper L c @ rest))))
   \<and> sub_articles L pw [] = []
   \<and> (\<not> pw \<and> spec_article_pair L s a1 r \<longrightarrow> sub_articles L pw s = a1 @ sub_articles L True r)
   \<and> (pw \<or> (\<forall>a q. \<not> spec_article_pair L (d # ds) a q)
      \<longrightarrow> sub_articles L pw (d # ds) = d # sub_articles L (is_word L d) ds)
   \<and> punct_en b = (b = 63 \<or> b = 46 \<or> b = 33 \<or> b = 44 \<or> b = 59)
   \<and> sub_space_punct punct_en [] = []
   \<and> (spec_space_punct punct_en t
      \<longrightarrow> sub_space_punct punct_en t = tl (take 3 t) @ sub_space_punct punct_en (drop 3 t))
   \<and> (\<not> spec_space_punct punct_en (e # es)
      \<longrightarrow> sub_space_punct punct_en (e # es) = e # sub_space_punct punct_en es)
   \<and> (c < 128 \<and> 97 \<notin> set pre \<and> 116 \<notin> set pre \<and> \<not> is_word L (last (c # pre))
        \<and> spec_article_pair L s a1 r
      \<longrightarrow> translated_field L AR_EN (c # pre @ s)
          = Inr (py_strip (sub_space_punct punct_en
              (char_upper L c @ pre @ a1 @ sub_articles L True r))))
   \<and> translated_field L AR_EN (u ''the the cat sat .'') = Inr (u ''The the cat sat.'')
   \<and> translated_field L AR_EN (u ''see the the cat .'') = Inr (u ''See the cat.'')
   \<and> translated_field L AR_EN (u ''see a an the cat'') = Inr (u ''See a the cat'')
   \<and> translated_field L AR_EN (u ''panda the cat'') = Inr (u ''Panda the cat'')
   \<and> translated_field L AR_EN (u ''see the there'') = Inr (u ''See the there'')
   \<and> translated_field L AR_EN (u ''x , ,'') = Inr (u ''X, ,'')
   \<and> translated_field L AR_EN (u ''a ,b'') = Inr (u ''A ,b'')"
proof -
  have 1: "translated_field L AR_EN [] = Inl IndexError"
    by (simp add: translated_field_def postprocess_def)
  have 2: "translated_field L AR_EN (c # rest)
     = Inr (py_strip (sub_space_punct punct_en (sub_articles L False (char_upper L c @ rest))))"
    by (rule translated_field_ar_en)
  have 3: "sub_articles L pw [] = []" by simp
  have 4: "\<not> pw \<and> spec_article_pair L s a1 r \<longrightarrow> sub_articles L pw s = a1 @ sub_articles L True r"
    using sub_articles_match [of pw L s a1 r] by blast
  have 5: "pw \<or> (\<forall>a q. \<not> spec_article_pair L (d # ds) a q)
      \<longrightarrow> sub_articles L pw (d # ds) = d # sub_articles L (is_word L d) ds"
    using sub_articles_keep [of pw L d ds] by blast
  have 6: "punct_en b = (b = 63 \<or> b = 46 \<or> b = 33 \<or> b = 44 \<or> b = 59)"
    by (rule punct_en_iff)
  have 7: "sub_space_punct punct_en [] = []" by simp
  have 8: "spec_space_punct punct_en t
      \<longrightarrow> sub_space_punct punct_en t = tl (take 3 t) @ sub_space_punct punct_en (drop 3 t)"
    using space_punct_match [of punct_en t] by blast
  have 9: "\<not> spec_space_punct punct_en (e # es)
      \<longrightarrow> sub_space_punct punct_en (e # es) = e # sub_space_punct punct_en es"
    using space_punct_keep [of punct_en e es] by blast
  have 10: "c < 128 \<and> 97 \<notin> set pre \<and> 116 \<notin> set pre \<and> \<not> is_word L (last (c # pre))
        \<and> spec_article_pair L s a1 r
      \<longrightarrow> translated_field L AR_EN (c # pre @ s)
          = Inr (py_strip (sub_space_punct punct_en
              (char_upper L c @ pre @ a1 @ sub_articles L True r)))"
    using ar_en_inner_pair [of c pre L s a1 r] by blast
  have 11: "translated_field L AR_EN (u ''the the cat sat .'') = Inr (u ''The the cat sat.'')"
    by (simp add: text_defs post_defs)
  have 12: "translated_field L AR_EN (u ''see the the cat .'') = Inr (u ''See the cat.'')"
    by (simp add: text_defs post_defs)
  have 13: "translated_field L AR_EN (u ''see a an the cat'') = Inr (u ''See a the cat'')"
    by (simp add: text_defs post_defs)
  have 14: "translated_field L AR_EN (u ''panda the cat'') = Inr (u ''Panda the cat'')"
    by (simp add: text_defs post_defs)
  have 15: "translated_field L AR_EN (u ''see the there'') = Inr (u ''See the there'')"
    by (simp add: text_defs post_defs)
  have 16: "translated_field L AR_EN (u ''x , ,'') = Inr (u ''X, ,'')"
    by (simp add: text_defs post_defs)
  have 17: "translated_field L AR_EN (u ''a ,b'') = Inr (u ''A ,b'')"
    by (simp add: text_defs post_defs)
  show ?thesis
    by (intro conjI) (fact 1 2 3 4 5 6 7 8 9 10 11 12 13 14 15 16 17)+
qed

theorem postprocess_ar_en_witness:
  "translated_field ascii_lib AR_EN (u ''see the  an cat .'') = Inr (u ''See the cat.'')
   \<and> sub_articles ascii_lib True (u ''a the'') = u ''a the''
   \<and> sub_articles ascii_lib False (u ''the theory'') = u ''the theory''
   \<and> sub_space_punct punct_en (u '' , x'') = u '', x''
   \<and> sub_space_punct punct_en (u '' ,x'') = u '' ,x''"
proof -
  have m: "spec_article_pair ascii_lib (u ''the  an cat .'') (u ''the'') (u '' cat .'')"
    unfolding spec_article_pair_def
    by (rule exI [of _ "u ''an''"], rule exI [of _ 32], rule exI [of _ "[32]"])
      (simp add: text_defs articles_def)
  have h: "(115::nat) < 128 \<and> 97 \<notin> set (u ''ee '') \<and> 116 \<notin> set (u ''ee '')
      \<and> \<not> is_word ascii_lib (last (115 # u ''ee ''))"
    by (simp add: text_defs)
  have n: "\<forall>a q. \<not> spec_article_pair ascii_lib (116 # u ''he theory'') a q"
    by (simp add: article_pair_None_iff [symmetric] text_defs post_defs)
  have sp: "spec_space_punct punct_en (u '' , x'')"
    unfolding spec_space_punct_def
    by (rule exI [of _ 32], rule exI [of _ 44], rule exI [of _ "u '' x''"])
      (simp add: text_defs punct_en_def)
  have ns: "\<not> spec_space_punct punct_en (32 # u '',x'')"
    by (simp add: spec_space_punct_def text_defs)
  note T = postprocess_ar_en [where L = ascii_lib and c = 115 and pre = "u ''ee ''"
      and s = "u ''the  an cat .''" and ?a1.0 = "u ''the''" and r = "u '' cat .''"
      and t = "u '' , x''" and e = 32 and es = "u '',x''"]
  from T h m have "translated_field ascii_lib AR_EN (115 # u ''ee '' @ u ''the  an cat .'')
      = Inr (py_strip (sub_space_punct punct_en
          (char_upper ascii_lib 115 @ u ''ee '' @ u ''the'' @ sub_articles ascii_lib True (u '' cat .''))))"
    by blast
  then have 1: "translated_field ascii_lib AR_EN (u ''see the  an cat .'') = Inr (u ''See the cat.'')"
    by (simp add: text_defs post_defs)
  from postprocess_ar_en [where L = ascii_lib and pw = True and d = 97 and ds = "u '' the''"]
  have "sub_articles ascii_lib True (97 # u '' the'')
      = 97 # sub_articles ascii_lib (is_word ascii_lib 97) (u '' the'')"
    by blast
  then have 2: "sub_articles ascii_lib True (u ''a the'') = u ''a the''"
    by (simp add: text_defs post_defs)
  from postprocess_ar_en [where L = ascii_lib and pw = False and d = 116 and ds = "u ''he theory''"] n
  have "sub_articles ascii_lib False (116 # u ''he theory'')
      = 116 # sub_articles ascii_lib (is_word ascii_lib 116) (u ''he theory'')"
    by blast
  then have 3: "sub_articles ascii_lib False (u ''the theory'') = u ''the theory''"
    by (simp add: text_defs post_defs)
  from T sp have "sub_space_punct punct_en (u '' , x'')
      = tl (take 3 (u '' , x'')) @ sub_space_punct punct_en (drop 3 (u '' , x''))"
    by blast
  then have 4: "sub_space_punct punct_en (u '' , x'') = u '', x''"
    by (simp add: text_defs)
  from T ns have "sub_space_punct punct_en (32 # u '',x'') = 32 # sub_space_punct punct_en (u '',x'')"
    by blast
  then have 5: "sub_space_punct punct_en (u '' ,x'') = u '' ,x''"
    by (simp add: text_defs)
  from 1 2 3 4 5 show ?thesis by simp
qed

text \<open>
  The claim C3 as it is written fails on its own example: the output keeps both articles.
\<close>

theorem the_the_cat_not_collapsed:
  "translated_field ascii_lib AR_EN (u ''the the cat sat .'') = Inr (u ''The the cat sat.'')
   \<and> translated_field ascii_lib AR_EN (u ''the the cat sat .'') \<noteq> Inr (u ''The cat sat.'')"
  by (simp add: text_defs post_defs)

text \<open>
  C4, as the code has it. In direction \<open>en-ar\<close> post-processing never raises: every
  character goes through the replacement of \<open>.\<close> by U+06D4, \<open>,\<close> by U+060C, the double
  quote by U+00AB and the apostrophe by U+00BB, then whitespace before punctuation is
  removed, and the result is trimmed. The scan goes from left to right and resumes behind
  each match. Where a whitespace character, one of U+061F, U+060C, U+061B and then
  whitespace or the end of the text start, the first of the three is dropped and the other
  two are kept; elsewhere the character is kept. U+06D4 is not in the class. So the
  example keeps the space before its final U+06D4, \<open>a .\<close> keeps its space, \<open>a ,b\<close>
  keeps its space and \<open>x , ,\<close> loses the first space only.
\<close>

theorem postprocess_en_ar:
  "translated_field L EN_AR raw
     = Inr (py_strip (sub_space_punct punct_arabic (map en_ar_char raw)))
   \<and> en_ar_char c = (if c = 46 then 1748 else if c = 44 then 1548 else if c = 34 then 171
        else if c = 39 then 187 else c)
   \<and> punct_arabic b = (b = 1567 \<or> b = 1548 \<or> b = 1563)
   \<and> sub_space_punct punct_arabic [] = []
   \<and> (spec_space_punct punct_arabic t
      \<longrightarrow> sub_space_punct punct_arabic t
          = tl (take 3 t) @ sub_space_punct punct_arabic (drop 3 t))
   \<and> (\<not> spec_space_punct punct_arabic (e # es)
      \<longrightarrow> sub_space_punct punct_arabic (e # es) = e # sub_space_punct punct_arabic es)
   \<and> (list_all (\<lambda>c. \<not> is_space c) pre \<and> spec_space_punct punct_arabic (map en_ar_char s)
      \<longrightarrow> translated_field L EN_AR (pre @ s)
          = Inr (py_strip (map en_ar_char pre @ tl (take 3 (map en_ar_char s))
              @ sub_space_punct punct_arabic (drop 3 (map en_ar_char s)))))
   \<and> py_strip (py_strip (sub_space_punct punct_arabic (map en_ar_char raw)))
     = py_strip (sub_space_punct punct_arabic (map en_ar_char raw))
   \<and> translated_field L EN_AR marhaban_raw = Inr marhaban_out
   \<and> translated_field L EN_AR (u ''a .'') = Inr [97, 32, 1748]
   \<and> translated_field L EN_AR (u ''a ,b'') = Inr [97, 32, 1548, 98]
   \<and> translated_field L EN_AR (u ''x , ,'') = Inr [120, 1548, 32, 1548]"
proof -
  have 1: "translated_field L EN_AR raw
     = Inr (py_strip (sub_space_punct punct_arabic (map en_ar_char raw)))"
    by (rule translated_field_en_ar)
  have 2: "en_ar_char c = (if c = 46 then 1748 else if c = 44 then 1548 else if c = 34 then 171
        else if c = 39 then 187 else c)"
    by (rule en_ar_char_def)
  have 3: "punct_arabic b = (b = 1567 \<or> b = 1548 \<or> b = 1563)"
    by (rule punct_arabic_iff)
  have 4: "sub_space_punct punct_arabic [] = []" by simp
  have 5: "spec_space_punct punct_arabic t
      \<longrightarrow> sub_space_punct punct_arabic t
          = tl (take 3 t) @ sub_space_punct punct_arabic (drop 3 t)"
    using space_punct_match [of punct_arabic t] by blast
  have 6: "\<not> spec_space_punct punct_arabic (e # es)
      \<longrightarrow> sub_space_punct punct_arabic (e # es) = e # sub_space_punct punct_arabic es"
    using space_punct_keep [of punct_arabic e es] by blast
  have 7: "list_all (\<lambda>c. \<not> is_space c) pre \<and> spec_space_punct punct_arabic (map en_ar_char s)
      \<longrightarrow> translated_field L EN_AR (pre @ s)
          = Inr (py_strip (map en_ar_char pre @ tl (take 3 (map en_ar_char s))
              @ sub_space_punct punct_arabic (drop 3 (map en_ar_char s))))"
    using en_ar_inner [of pre s L] by blast
  have 8: "py_strip (py_strip (sub_space_punct punct_arabic (map en_ar_char raw)))
     = py_strip (sub_space_punct punct_arabic (map en_ar_char raw))"
    by (rule py_strip_idem)
  have 9: "translated_field L EN_AR marhaban_raw = Inr marhaban_out"
    by (simp add: text_defs post_defs marhaban_raw_def marhaban_out_def)
  have 10: "translated_field L EN_AR (u ''a .'') = Inr [97, 32, 1748]"
    by (simp add: text_defs post_defs)
  have 11: "translated_field L EN_AR (u ''a ,b'') = Inr [97, 32, 1548, 98]"
    by (simp add: text_defs post_defs)
  have 12: "translated_field L EN_AR (u ''x , ,'') = Inr [120, 1548, 32, 1548]"
    by (simp add: text_defs post_defs)
  show ?thesis
    by (intro conjI) (fact 1 2 3 4 5 6 7 8 9 10 11 12)+
qed

theorem postprocess_en_ar_witness:
  "translated_field ascii_lib EN_AR (u ''ab , c'') = Inr [97, 98, 1548, 32, 99]
   \<and> sub_space_punct punct_arabic [32, 1563] = [1563]
   \<and> sub_space_punct punct_arabic [32, 1748] = [32, 1748]"
proof -
  have sp: "spec_space_punct punct_arabic (map en_ar_char (u '' , c''))"
    unfolding spec_space_punct_def
    by (rule exI [of _ 32], rule exI [of _ 1548], rule exI [of _ "u '' c''"])
      (simp add: text_defs punct_arabic_def en_ar_char_def)
  have pre: "list_all (\<lambda>c. \<not> is_space c) (u ''ab'')"
    by (simp add: text_defs)
  have sq: "spec_space_punct punct_arabic [32, 1563]"
    unfolding spec_space_punct_def
    by (rule exI [of _ 32], rule exI [of _ 1563], rule exI [of _ "[]"])
      (simp add: text_defs punct_arabic_def)
  have ns: "\<not> spec_space_punct punct_arabic (32 # [1748])"
    by (simp add: spec_space_punct_def punct_arabic_def)
  note T = postprocess_en_ar [where L = ascii_lib and pre = "u ''ab''" and s = "u '' , c''"
      and t = "[32, 1563]" and e = 32 and es = "[1748]"]
  from T pre sp have "translated_field ascii_lib EN_AR (u ''ab'' @ u '' , c'')
      = Inr (py_strip (map en_ar_char (u ''ab'') @ tl (take 3 (map en_ar_char (u '' , c'')))
          @ sub_space_punct punct_arabic (drop 3 (map en_ar_char (u '' , c'')))))"
    by blast
  then have 1: "translated_field ascii_lib EN_AR (u ''ab , c'') = Inr [97, 98, 1548, 32, 99]"
    by (simp add: text_defs en_ar_char_def)
  from T sq have "sub_space_punct punct_arabic [32, 1563]
      = tl (take 3 [32, 1563]) @ sub_space_punct punct_arabic (drop 3 [32, 1563])"
    by blast
  then have 2: "sub_space_punct punct_arabic [32, 1563] = [1563]" by simp
  from T ns have "sub_space_punct punct_arabic (32 # [1748])
      = 32 # sub_space_punct punct_arabic [1748]"
    by blast
  then have 3: "sub_space_punct punct_arabic [32, 1748] = [32, 1748]" by simp
  from 1 2 3 show ?thesis by simp
qed

text \<open>
  The claim C4 as it is written fails on its own example: the space before the final
  U+06D4 stays.
\<close>

theorem marhaban_keeps_space:
  "translated_field ascii_lib EN_AR marhaban_raw = Inr marhaban_out
   \<and> translated_field ascii_lib EN_AR marhaban_raw \<noteq> Inr marhaban_claimed"
  by (simp add: text_defs post_defs marhaban_raw_def marhaban_out_def marhaban_claimed_def)

end
